theory Spec2Isabelle
  imports Complex_Main "HOL-Library.Multiset"
begin

section \<open>Numbers and geometry helpers\<close>

text \<open>
  The module under verification is \<^verbatim>\<open>makeEvasive\<close>: a controller that makes a DOM element
  jump away from the pointer. JavaScript numbers are modelled as \<^typ>\<open>real\<close>: arithmetic is
  exact, and there is no NaN and no infinity. \<^verbatim>\<open>Math.PI\<close> is \<^term>\<open>pi\<close>. Rounding is
  written out in the one place where it decides between alternatives that are equal over the
  real numbers: the displacements that the loop over the angles in \<^verbatim>\<open>escapeFrom\<close> compares.
\<close>

definition GRAVITY :: real where "GRAVITY = 3200"
definition JUMP_VELOCITY :: real where "JUMP_VELOCITY = 850"
definition HORIZONTAL_LERP :: real where "HORIZONTAL_LERP = 18 / 100"
definition SPRING_TENSION :: real where "SPRING_TENSION = 120"
definition SPRING_FRICTION :: real where "SPRING_FRICTION = 28"

definition distance :: "real \<Rightarrow> real \<Rightarrow> real \<Rightarrow> real \<Rightarrow> real" where
  "distance x1 y1 x2 y2 = sqrt ((x2 - x1)\<^sup>2 + (y2 - y1)\<^sup>2)"

definition clamp :: "real \<Rightarrow> real \<Rightarrow> real \<Rightarrow> real" where
  "clamp val mn mx = min (max val mn) mx"

text \<open>
  A number computed in binary64 is the exact one times \<open>1 + \<delta>\<close>, with \<open>\<delta>\<close> the relative
  rounding error accumulated on the way. For the displacement of a candidate destination its
  magnitude is below 1: the displacement computed for a point other than the current position
  is positive, and the one computed for the current position is 0. Nothing else is known of
  \<open>\<delta>\<close> here; \<open>noRounding\<close> is exact arithmetic, and \<open>oneUlp\<close> is the distance from 1 to the
  next binary64 number.
\<close>

typedef roundoff = "{d :: real. \<bar>d\<bar> < 1}"
  morphisms relErr Roundoff
  by (rule exI[of _ 0]) simp

setup_lifting type_definition_roundoff

lift_definition noRounding :: roundoff is 0
  by simp

lift_definition oneUlp :: roundoff is "1 / 2 ^ 52"
  by simp

section \<open>Data model\<close>

text \<open>The interface \<^verbatim>\<open>State\<close> of the source, field by field.\<close>

record State =
  currentX :: real
  currentY :: real
  velocityX :: real
  velocityY :: real
  targetX :: real
  targetY :: real
  isReturning :: bool
  isJumping :: bool
  isCaught :: bool
  z :: real
  zVelocity :: real
  jumpStartX :: real
  jumpStartY :: real
  jumpTargetX :: real
  jumpTargetY :: real
  lastJumpTime :: real
  lastTauntTime :: real

text \<open>
  The resolved options \<^verbatim>\<open>opts\<close>. The two optional callbacks are modelled by a flag that
  says whether the caller supplied one; an invocation is recorded in the log \<open>calls\<close> below.
\<close>

record Opts =
  detectionRadius :: real
  escapeDistance :: real
  edgePadding :: real
  taunts :: "string list"
  tauntProbability :: real
  showShadow :: bool
  screenShake :: bool
  onEscape :: bool
  onCatch :: bool
  caughtText :: string
  caughtDuration :: real

datatype callback = OnEscape | OnCatch

text \<open>
  What the closure of \<^verbatim>\<open>makeEvasive\<close> captures once at attach time, together with the
  sequence of values that successive calls of \<^verbatim>\<open>Math.random()\<close> return.
\<close>

record Instance =
  opts :: Opts
  startX :: real
  startY :: real
  originalContent :: string
  random :: "nat \<Rightarrow> real"

text \<open>
  What the host reports when an event is handled: the centre of the element
  (\<^verbatim>\<open>getButtonCenter\<close>, from \<^verbatim>\<open>getBoundingClientRect\<close>), the viewport size, the
  element's width and height, and \<^verbatim>\<open>Date.now()\<close>; and, for each angle that an escape tries
  while handling this event, the relative rounding error of the displacement that the host's
  arithmetic computes for it.
\<close>

record Env =
  centerX :: real
  centerY :: real
  innerWidth :: real
  innerHeight :: real
  rectWidth :: real
  offsetHeight :: real
  dateNow :: real
  rounding :: "real \<Rightarrow> roundoff"

text \<open>The part of the document the controller writes to.\<close>

record Doc =
  innerHTML :: string
  caughtClass :: bool
  wrapperLeft :: real
  wrapperTop :: real
  landingClass :: bool
  caughtShake :: bool
  tauntText :: "string option"
  tauntVisible :: bool
  shadowLeft :: real
  shadowTop :: real
  shadowScale :: real
  shadowOpacity :: real
  shadowTransition :: string
  shadowAttached :: bool
  wrapped :: bool

text \<open>
  Callbacks handed to \<^verbatim>\<open>setTimeout\<close> and \<^verbatim>\<open>requestAnimationFrame\<close>. The source passes
  closures; each closure of the source is one constructor.
\<close>

datatype timer_cb =
    HideTaunt
  | ShadowFade
  | LandingEnd
  | ReturnToCenter
  | CaughtReturn
  | CaughtRestore

datatype frame_cb = SpringAnimate | JumpAnimate

text \<open>
  The mutable variables of the closure (\<open>state\<close>, the four handles, the taunt queue), the
  document, and the host's event loop: pending timers with their due time, pending animation
  frame requests, the clock, the number of \<^verbatim>\<open>Math.random()\<close> calls made so far, whether the
  three listeners are registered, and the log of callback invocations.
  A handle is \<open>None\<close> for \<^verbatim>\<open>null\<close>; identifiers start at 1, so a stored identifier is truthy.
  \<open>lastTauntIndex\<close> is \<open>None\<close> for \<^verbatim>\<open>undefined\<close>.
\<close>

record Ctrl =
  state :: State
  animationFrame :: "nat option"
  jumpAnimFrame :: "nat option"
  returnTimeout :: "nat option"
  tauntTimeout :: "nat option"
  tauntQueue :: "int list"
  lastTauntIndex :: "int option"
  doc :: Doc
  timers :: "(nat \<times> real \<times> timer_cb) list"
  frames :: "(nat \<times> frame_cb) list"
  nextTimer :: nat
  nextFrame :: nat
  clock :: real
  randomCalls :: nat
  listening :: bool
  calls :: "callback list"

section \<open>Host services\<close>

definition setTimeout :: "timer_cb \<Rightarrow> real \<Rightarrow> Ctrl \<Rightarrow> nat \<times> Ctrl" where
  "setTimeout cb delay s =
     (nextTimer s,
      s\<lparr>timers := timers s @ [(nextTimer s, clock s + max 0 delay, cb)],
        nextTimer := Suc (nextTimer s)\<rparr>)"

definition clearTimeout :: "nat \<Rightarrow> Ctrl \<Rightarrow> Ctrl" where
  "clearTimeout h s = s\<lparr>timers := filter (\<lambda>t. fst t \<noteq> h) (timers s)\<rparr>"

definition requestAnimationFrame :: "frame_cb \<Rightarrow> Ctrl \<Rightarrow> nat \<times> Ctrl" where
  "requestAnimationFrame cb s =
     (nextFrame s,
      s\<lparr>frames := frames s @ [(nextFrame s, cb)], nextFrame := Suc (nextFrame s)\<rparr>)"

definition cancelAnimationFrame :: "nat \<Rightarrow> Ctrl \<Rightarrow> Ctrl" where
  "cancelAnimationFrame h s = s\<lparr>frames := filter (\<lambda>f. fst f \<noteq> h) (frames s)\<rparr>"

text \<open>\<^verbatim>\<open>if (h) clearTimeout(h)\<close> and \<^verbatim>\<open>if (h) cancelAnimationFrame(h)\<close>.\<close>

definition clearIfSet :: "nat option \<Rightarrow> Ctrl \<Rightarrow> Ctrl" where
  "clearIfSet h s = (case h of None \<Rightarrow> s | Some i \<Rightarrow> clearTimeout i s)"

definition cancelIfSet :: "nat option \<Rightarrow> Ctrl \<Rightarrow> Ctrl" where
  "cancelIfSet h s = (case h of None \<Rightarrow> s | Some i \<Rightarrow> cancelAnimationFrame i s)"

section \<open>Taunt queue\<close>

text \<open>
  \<^verbatim>\<open>[q[i], q[j]] = [q[j], q[i]]\<close>. \<^verbatim>\<open>Math.random()\<close> returns a value in \<open>[0, 1)\<close>, so the
  source only ever swaps positions inside the array; the model leaves the array alone for any
  other pair of positions, and the theorems on the queue assume the range of the random values.
\<close>

definition swap :: "nat \<Rightarrow> nat \<Rightarrow> int list \<Rightarrow> int list" where
  "swap i j q = (if i < length q \<and> j < length q then q[i := q ! j, j := q ! i] else q)"

text \<open>\<^verbatim>\<open>[...Array(n).keys()]\<close>\<close>

definition keys :: "nat \<Rightarrow> int list" where
  "keys n = map int [0..<n]"

text \<open>
  The loop of \<^verbatim>\<open>shuffleTauntQueue\<close>, \<^verbatim>\<open>for (i = length - 1; i > 0; i--)\<close>: the third
  argument is \<open>i\<close>, the second the number of random values consumed.
\<close>

fun shuffleLoop :: "(nat \<Rightarrow> real) \<Rightarrow> nat \<Rightarrow> nat \<Rightarrow> int list \<Rightarrow> nat \<times> int list" where
  "shuffleLoop rnd p 0 q = (p, q)"
| "shuffleLoop rnd p (Suc i) q =
     (let j = nat \<lfloor>rnd p * (real (Suc i) + 1)\<rfloor>
      in shuffleLoop rnd (Suc p) i (swap (Suc i) j q))"

definition shuffleTauntQueue :: "Instance \<Rightarrow> Ctrl \<Rightarrow> Ctrl" where
  "shuffleTauntQueue inst s =
     (let (p, q) = shuffleLoop (random inst) (randomCalls s) (length (tauntQueue s) - 1) (tauntQueue s)
      in s\<lparr>tauntQueue := q, randomCalls := p\<rparr>)"

text \<open>
  The inner loop of \<^verbatim>\<open>getNextTaunt\<close>: the first position \<open>i \<ge> 1\<close> whose entry differs from
  \<open>lastTauntIndex\<close>; called on the tail of the queue with \<open>i = 1\<close>.
\<close>

fun firstOther :: "int option \<Rightarrow> int list \<Rightarrow> nat \<Rightarrow> nat option" where
  "firstOther l [] i = None"
| "firstOther l (x # xs) i = (if Some x \<noteq> l then Some i else firstOther l xs (Suc i))"

text \<open>\<^verbatim>\<open>q[0]\<close>, which is \<^verbatim>\<open>undefined\<close> on an empty array, and \<^verbatim>\<open>opts.taunts[idx]\<close>.\<close>

definition head :: "int list \<Rightarrow> int option" where
  "head q = (case q of [] \<Rightarrow> None | x # _ \<Rightarrow> Some x)"

definition tauntAt :: "string list \<Rightarrow> int option \<Rightarrow> string option" where
  "tauntAt ts idx =
     (case idx of None \<Rightarrow> None
      | Some i \<Rightarrow> if 0 \<le> i \<and> nat i < length ts then Some (ts ! nat i) else None)"

text \<open>
  \<^verbatim>\<open>getNextTaunt\<close> in its three parts: the refill of an empty queue, the swap that moves an
  entry other than \<open>lastTauntIndex\<close> to the front, and the \<^verbatim>\<open>shift\<close>.
\<close>

definition refillQueue :: "Instance \<Rightarrow> Ctrl \<Rightarrow> Ctrl" where
  "refillQueue inst s =
     (if tauntQueue s = []
      then shuffleTauntQueue inst (s\<lparr>tauntQueue := keys (length (taunts (opts inst)))\<rparr>)
      else s)"

definition avoidRepeat :: "int option \<Rightarrow> int list \<Rightarrow> int list" where
  "avoidRepeat l q =
     (if head q = l \<and> length q > 1
      then (case firstOther l (tl q) 1 of None \<Rightarrow> q | Some i \<Rightarrow> swap 0 i q)
      else q)"

definition getNextTaunt :: "Instance \<Rightarrow> Ctrl \<Rightarrow> string option \<times> Ctrl" where
  "getNextTaunt inst s =
     (let s1 = refillQueue inst s;
          q2 = avoidRepeat (lastTauntIndex s1) (tauntQueue s1);
          idx = head q2
      in (tauntAt (taunts (opts inst)) idx,
          s1\<lparr>tauntQueue := tl q2, lastTauntIndex := idx\<rparr>))"

definition showTaunt :: "Instance \<Rightarrow> Env \<Rightarrow> Ctrl \<Rightarrow> Ctrl" where
  "showTaunt inst env s =
     (if dateNow env - lastTauntTime (state s) > 600 then
        (let s1 = s\<lparr>state := (state s)\<lparr>lastTauntTime := dateNow env\<rparr>\<rparr>;
             (txt, s2) = getNextTaunt inst s1;
             s3 = s2\<lparr>doc := (doc s2)\<lparr>tauntText := txt, tauntVisible := True\<rparr>\<rparr>;
             s4 = clearIfSet (tauntTimeout s3) s3;
             (h, s5) = setTimeout HideTaunt 1200 s4
         in s5\<lparr>tauntTimeout := Some h\<rparr>)
      else s)"

section \<open>Spring return\<close>

definition updatePosition :: "Instance \<Rightarrow> Ctrl \<Rightarrow> Ctrl" where
  "updatePosition inst s =
     s\<lparr>doc := (doc s)\<lparr>wrapperLeft := startX inst + currentX (state s),
                        wrapperTop := startY inst + currentY (state s)\<rparr>\<rparr>"

definition updateShadow :: "Instance \<Rightarrow> Env \<Rightarrow> real \<Rightarrow> Ctrl \<Rightarrow> Ctrl" where
  "updateShadow inst env height s =
     (let maxHeight = (JUMP_VELOCITY * JUMP_VELOCITY) / (2 * GRAVITY);
          normalizedHeight = max 0 (min (height / maxHeight) 1);
          scale = 1 - normalizedHeight * (6 / 10);
          opacity = 1 - normalizedHeight * (5 / 10)
      in s\<lparr>doc := (doc s)\<lparr>shadowLeft := startX inst + currentX (state s),
                            shadowTop := startY inst + currentY (state s) + offsetHeight env / 2 + 10,
                            shadowScale := scale,
                            shadowOpacity := opacity\<rparr>\<rparr>)"

text \<open>The velocity and position update at the head of \<^verbatim>\<open>springAnimate\<close>.\<close>

definition springMove :: "State \<Rightarrow> State" where
  "springMove st =
     (let dx = targetX st - currentX st;
          dy = targetY st - currentY st;
          vx = (velocityX st + (dx * SPRING_TENSION) / 1000) * (1 - SPRING_FRICTION / 100);
          vy = (velocityY st + (dy * SPRING_TENSION) / 1000) * (1 - SPRING_FRICTION / 100)
      in st\<lparr>velocityX := vx, velocityY := vy,
             currentX := currentX st + vx, currentY := currentY st + vy\<rparr>)"

text \<open>
  The test \<^verbatim>\<open>speed < 0.1 && distToTarget < 0.5\<close>: the speed is taken after the update
  (second argument), the distance to the target before it (first argument).
\<close>

definition springSettled :: "State \<Rightarrow> State \<Rightarrow> bool" where
  "springSettled st st1 \<longleftrightarrow>
     sqrt ((velocityX st1)\<^sup>2 + (velocityY st1)\<^sup>2) < 1 / 10 \<and>
     sqrt ((targetX st - currentX st)\<^sup>2 + (targetY st - currentY st)\<^sup>2) < 5 / 10"

definition springAnimate :: "Instance \<Rightarrow> Ctrl \<Rightarrow> Ctrl" where
  "springAnimate inst s =
     (let st = state s;
          st1 = springMove st;
          s1 = updatePosition inst (s\<lparr>state := st1\<rparr>)
      in if isReturning st1 \<and> springSettled st st1 then
           (updatePosition inst
              (s1\<lparr>state := st1\<lparr>currentX := targetX st1, currentY := targetY st1,
                                 velocityX := 0, velocityY := 0, isReturning := False\<rparr>\<rparr>))
             \<lparr>animationFrame := None\<rparr>
         else if isReturning st1 then
           (let (h, s2) = requestAnimationFrame SpringAnimate s1
            in s2\<lparr>animationFrame := Some h\<rparr>)
         else s1)"

definition returnToCenter :: "Instance \<Rightarrow> Ctrl \<Rightarrow> Ctrl" where
  "returnToCenter inst s =
     (let s1 = s\<lparr>state := (state s)\<lparr>targetX := 0, targetY := 0, isReturning := True\<rparr>,
                 doc := (doc s)\<lparr>shadowTransition := ''opacity 0.15s ease-out'',
                                shadowOpacity := 0\<rparr>\<rparr>
      in if animationFrame s1 = None then
           (let (h, s2) = requestAnimationFrame SpringAnimate s1
            in s2\<lparr>animationFrame := Some h\<rparr>)
         else s1)"

section \<open>Jump\<close>

text \<open>
  The horizontal part of a jump frame: the new position from the current one and the jump
  target (the lines between the gravity update and the landing test).
\<close>

definition jumpMove :: "real \<Rightarrow> real \<Rightarrow> real \<Rightarrow> real \<Rightarrow> real \<times> real" where
  "jumpMove cx cy tx ty =
     (let dx = tx - cx;
          dy = ty - cy;
          dist = sqrt (dx * dx + dy * dy);
          lerpMove = dist * HORIZONTAL_LERP;
          minMove = 15;
          moveAmount = max lerpMove (min minMove dist)
      in if dist > 1 then
           (let ratio = moveAmount / dist in (cx + dx * ratio, cy + dy * ratio))
         else (tx, ty))"

text \<open>
  The vertical part of a jump frame: the time step (at most 50 ms; the first frame of a
  jump, with \<open>lastJumpTime = 0\<close>, takes a step of 0) and the fall under gravity.
\<close>

definition jumpFall :: "State \<Rightarrow> real \<Rightarrow> State" where
  "jumpFall st timestamp =
     (let last = (if lastJumpTime st = 0 then timestamp else lastJumpTime st);
          delta = min ((timestamp - last) / 1000) (5 / 100);
          zv = zVelocity st - GRAVITY * delta
      in st\<lparr>lastJumpTime := timestamp, zVelocity := zv, z := z st + zv * delta\<rparr>)"

text \<open>The landing test \<^verbatim>\<open>state.z <= 0 && state.zVelocity < 0\<close> of the frame at \<open>timestamp\<close>.\<close>

definition jumpLands :: "State \<Rightarrow> real \<Rightarrow> bool" where
  "jumpLands st timestamp \<longleftrightarrow>
     z (jumpFall st timestamp) \<le> 0 \<and> zVelocity (jumpFall st timestamp) < 0"

definition jumpAnimate :: "Instance \<Rightarrow> Env \<Rightarrow> real \<Rightarrow> Ctrl \<Rightarrow> Ctrl" where
  "jumpAnimate inst env timestamp s =
     (let st = state s;
          st0 = jumpFall st timestamp;
          (nx, ny) = jumpMove (currentX st) (currentY st) (jumpTargetX st) (jumpTargetY st);
          st1 = st0\<lparr>currentX := nx, currentY := ny\<rparr>;
          visualOffsetY = z st1 * (15 / 100);
          s1 = s\<lparr>state := st1,
                 doc := (doc s)\<lparr>wrapperLeft := startX inst + nx,
                                wrapperTop := startY inst + ny - visualOffsetY\<rparr>\<rparr>;
          s2 = (if showShadow (opts inst) then updateShadow inst env (z st1) s1 else s1)
      in if jumpLands st timestamp then
           (let st2 = (state s2)\<lparr>z := 0, zVelocity := 0,
                                 currentX := jumpTargetX st1, currentY := jumpTargetY st1,
                                 targetX := jumpTargetX st1, targetY := jumpTargetY st1\<rparr>;
                s3 = updatePosition inst (s2\<lparr>state := st2\<rparr>);
                s4 = (if showShadow (opts inst) then
                        snd (setTimeout ShadowFade 200
                               (s3\<lparr>doc := (doc s3)\<lparr>shadowScale := 1, shadowOpacity := 1\<rparr>\<rparr>))
                      else s3);
                s5 = (if screenShake (opts inst) then
                        snd (setTimeout LandingEnd 200
                               (s4\<lparr>doc := (doc s4)\<lparr>landingClass := True\<rparr>\<rparr>))
                      else s4);
                s6 = s5\<lparr>state := (state s5)\<lparr>isJumping := False, lastJumpTime := 0\<rparr>,
                        jumpAnimFrame := None\<rparr>;
                s7 = clearIfSet (returnTimeout s6) s6;
                (h, s8) = setTimeout ReturnToCenter 450 s7
            in s8\<lparr>returnTimeout := Some h\<rparr>)
         else
           (let (h, s3) = requestAnimationFrame JumpAnimate s2
            in s3\<lparr>jumpAnimFrame := Some h\<rparr>))"

definition startJump :: "Instance \<Rightarrow> real \<Rightarrow> real \<Rightarrow> Ctrl \<Rightarrow> Ctrl" where
  "startJump inst destX destY s =
     (let st = state s;
          s1 = s\<lparr>state := st\<lparr>jumpStartX := currentX st, jumpStartY := currentY st,
                              jumpTargetX := destX, jumpTargetY := destY,
                              z := 0, zVelocity := JUMP_VELOCITY, lastJumpTime := 0\<rparr>\<rparr>;
          s2 = (if showShadow (opts inst)
                then s1\<lparr>doc := (doc s1)\<lparr>shadowTransition := [], shadowOpacity := 1\<rparr>\<rparr>
                else s1);
          s3 = cancelIfSet (jumpAnimFrame s2) s2;
          (h, s4) = requestAnimationFrame JumpAnimate s3
      in s4\<lparr>jumpAnimFrame := Some h\<rparr>)"

section \<open>Escape\<close>

definition angles :: "real list" where
  "angles = [0, 3 / 10, - (3 / 10), 6 / 10, - (6 / 10), 9 / 10, - (9 / 10),
             12 / 10, - (12 / 10), pi]"

text \<open>\<^verbatim>\<open>Math.sqrt(dx * dx + dy * dy) || 1\<close>: the only falsy value of a square root is 0.\<close>

definition escapeLen :: "real \<Rightarrow> real \<Rightarrow> real" where
  "escapeLen dx dy = (let l = sqrt (dx * dx + dy * dy) in if l = 0 then 1 else l)"

text \<open>The movement envelope \<open>(maxX, minY, maxY)\<close> computed at the head of an escape.\<close>

definition envelope :: "Instance \<Rightarrow> Env \<Rightarrow> real \<times> real \<times> real" where
  "envelope inst env =
     (innerWidth env / 2 - rectWidth env / 2 - edgePadding (opts inst),
      - innerHeight env * (55 / 100),
      innerHeight env * (25 / 100))"

text \<open>The body of the loop over the angles up to the computation of \<open>newX\<close>, \<open>newY\<close>.\<close>

definition candidate ::
  "real \<Rightarrow> real \<Rightarrow> real \<Rightarrow> real \<Rightarrow> real \<Rightarrow> real \<times> real \<times> real \<Rightarrow> real \<Rightarrow> real \<times> real" where
  "candidate cx cy dx dy esc envl angle =
     (let (maxX, minY, maxY) = envl;
          rdx = dx * cos angle - dy * sin angle;
          rdy = dx * sin angle + dy * cos angle;
          newX = cx + rdx * esc;
          newY = cy + rdy * esc
      in (clamp newX (- maxX) maxX, clamp newY minY maxY))"

text \<open>
  One iteration: the accumulator is \<open>(bestX, bestY, bestDistance)\<close>. The candidates that the
  clamp leaves alone are all at the same distance from the current position over the real
  numbers, so the outcome of \<^verbatim>\<open>moveDist > bestDistance\<close> between them is decided by rounding:
  \<open>moveDist\<close> is the displacement as the host computes it for this angle.
\<close>

definition tryAngle ::
  "(real \<Rightarrow> roundoff) \<Rightarrow> real \<Rightarrow> real \<Rightarrow> real \<Rightarrow> real \<Rightarrow> real \<Rightarrow> real \<times> real \<times> real \<Rightarrow>
   real \<times> real \<times> real \<Rightarrow> real \<Rightarrow> real \<times> real \<times> real" where
  "tryAngle rnd cx cy dx dy esc envl best angle =
     (let (newX, newY) = candidate cx cy dx dy esc envl angle;
          moveDist = distance cx cy newX newY * (1 + relErr (rnd angle))
      in if moveDist > snd (snd best) then (newX, newY, moveDist) else best)"

text \<open>The unit vector from the pointer to the centre of the element.\<close>

definition escapeDir :: "Env \<Rightarrow> real \<Rightarrow> real \<Rightarrow> real \<times> real" where
  "escapeDir env mouseX mouseY =
     (let dx = centerX env - mouseX;
          dy = centerY env - mouseY;
          len = escapeLen dx dy
      in (dx / len, dy / len))"

definition chooseDestination :: "Instance \<Rightarrow> Env \<Rightarrow> real \<Rightarrow> real \<Rightarrow> State \<Rightarrow> real \<times> real" where
  "chooseDestination inst env mouseX mouseY st =
     (let (dx, dy) = escapeDir env mouseX mouseY;
          best = foldl (tryAngle (rounding env) (currentX st) (currentY st) dx dy
                          (escapeDistance (opts inst)) (envelope inst env))
                   (currentX st, currentY st, 0) angles
      in (fst best, fst (snd best)))"

text \<open>
  The body of \<^verbatim>\<open>if (dist < opts.detectionRadius)\<close> in \<^verbatim>\<open>escapeFrom\<close>, from
  \<^verbatim>\<open>state.isReturning = false\<close> to the call of \<^verbatim>\<open>opts.onEscape\<close>.
\<close>

definition escapeJump :: "Instance \<Rightarrow> Env \<Rightarrow> real \<Rightarrow> real \<Rightarrow> Ctrl \<Rightarrow> Ctrl" where
  "escapeJump inst env mouseX mouseY s =
     (let s1 = s\<lparr>state := (state s)\<lparr>isReturning := False\<rparr>\<rparr>;
          s2 = (case animationFrame s1 of
                  None \<Rightarrow> s1
                | Some h \<Rightarrow> (cancelAnimationFrame h s1)\<lparr>animationFrame := None\<rparr>);
          s3 = (case returnTimeout s2 of
                  None \<Rightarrow> s2
                | Some h \<Rightarrow> (clearTimeout h s2)\<lparr>returnTimeout := None\<rparr>);
          s4 = s3\<lparr>state := (state s3)\<lparr>isJumping := True\<rparr>\<rparr>;
          (bestX, bestY) = chooseDestination inst env mouseX mouseY (state s4);
          s5 = startJump inst bestX bestY s4
      in if onEscape (opts inst) then s5\<lparr>calls := calls s5 @ [OnEscape]\<rparr> else s5)"

definition escapeFrom :: "Instance \<Rightarrow> Env \<Rightarrow> real \<Rightarrow> real \<Rightarrow> Ctrl \<Rightarrow> Ctrl" where
  "escapeFrom inst env mouseX mouseY s =
     (if isCaught (state s) \<or> isJumping (state s) then s
      else if distance mouseX mouseY (centerX env) (centerY env) < detectionRadius (opts inst) then
        (let s6 = escapeJump inst env mouseX mouseY s;
             r = random inst (randomCalls s6);
             s7 = s6\<lparr>randomCalls := Suc (randomCalls s6)\<rparr>
         in if r < tauntProbability (opts inst) then showTaunt inst env s7 else s7)
      else s)"

text \<open>
  When an escape is triggered, in the words of the contract: the pointer is closer to the
  centre of the element than \<open>detectionRadius\<close>, and the element is neither caught nor
  jumping.
\<close>

definition escapeTriggered :: "Instance \<Rightarrow> Env \<Rightarrow> real \<Rightarrow> real \<Rightarrow> Ctrl \<Rightarrow> bool" where
  "escapeTriggered inst env mouseX mouseY s \<longleftrightarrow>
     distance mouseX mouseY (centerX env) (centerY env) < detectionRadius (opts inst)
     \<and> \<not> isCaught (state s) \<and> \<not> isJumping (state s)"

text \<open>A point lies within the movement envelope \<open>(maxX, minY, maxY)\<close>.\<close>

definition inEnvelope :: "real \<times> real \<times> real \<Rightarrow> real \<times> real \<Rightarrow> bool" where
  "inEnvelope envl p \<longleftrightarrow>
     \<bar>fst p\<bar> \<le> fst envl \<and> fst (snd envl) \<le> snd p \<and> snd p \<le> snd (snd envl)"

text \<open>The ten candidate destinations of an escape, in the order of the angles.\<close>

definition candidates :: "Instance \<Rightarrow> Env \<Rightarrow> real \<Rightarrow> real \<Rightarrow> State \<Rightarrow> (real \<times> real) list" where
  "candidates inst env mouseX mouseY st =
     map (candidate (currentX st) (currentY st)
            (fst (escapeDir env mouseX mouseY)) (snd (escapeDir env mouseX mouseY))
            (escapeDistance (opts inst)) (envelope inst env))
       angles"

text \<open>The point that the loop body reaches for an angle before it clamps it.\<close>

definition unclamped :: "Instance \<Rightarrow> Env \<Rightarrow> real \<Rightarrow> real \<Rightarrow> State \<Rightarrow> real \<Rightarrow> real \<times> real" where
  "unclamped inst env mouseX mouseY st angle =
     (let (dx, dy) = escapeDir env mouseX mouseY
      in (currentX st + (dx * cos angle - dy * sin angle) * escapeDistance (opts inst),
          currentY st + (dx * sin angle + dy * cos angle) * escapeDistance (opts inst)))"

text \<open>
  The displacement of a point from the current position, exact and as the host computes it
  for the candidate of an angle, and the target of a jump.
\<close>

definition displacement :: "State \<Rightarrow> real \<times> real \<Rightarrow> real" where
  "displacement st p = distance (currentX st) (currentY st) (fst p) (snd p)"

definition computedDisplacement :: "Env \<Rightarrow> State \<Rightarrow> real \<Rightarrow> real \<times> real \<Rightarrow> real" where
  "computedDisplacement env st angle p = displacement st p * (1 + relErr (rounding env angle))"

definition jumpTarget :: "Ctrl \<Rightarrow> real \<times> real" where
  "jumpTarget s = (jumpTargetX (state s), jumpTargetY (state s))"

section \<open>Event handlers and teardown\<close>

definition handleMouseMove :: "Instance \<Rightarrow> Env \<Rightarrow> real \<Rightarrow> real \<Rightarrow> Ctrl \<Rightarrow> Ctrl" where
  "handleMouseMove inst env clientX clientY s =
     (let s1 = escapeFrom inst env clientX clientY s;
          s2 = clearIfSet (returnTimeout s1) s1;
          dist = distance clientX clientY (centerX env) (centerY env)
      in if dist > detectionRadius (opts inst) * (25 / 10) then
           (let (h, s3) = setTimeout ReturnToCenter 400 s2 in s3\<lparr>returnTimeout := Some h\<rparr>)
         else s2)"

definition handleMouseLeave :: "Instance \<Rightarrow> Ctrl \<Rightarrow> Ctrl" where
  "handleMouseLeave inst s =
     (let s1 = clearIfSet (returnTimeout s) s;
          (h, s2) = setTimeout ReturnToCenter 200 s1
      in s2\<lparr>returnTimeout := Some h\<rparr>)"

definition handleClick :: "Instance \<Rightarrow> Ctrl \<Rightarrow> Ctrl" where
  "handleClick inst s =
     (if isCaught (state s) then s
      else
        (let s1 = s\<lparr>state := (state s)\<lparr>isCaught := True\<rparr>\<rparr>;
             s2 = (if onCatch (opts inst) then s1\<lparr>calls := calls s1 @ [OnCatch]\<rparr> else s1);
             s3 = (case jumpAnimFrame s2 of
                     None \<Rightarrow> s2
                   | Some h \<Rightarrow> (cancelAnimationFrame h s2)\<lparr>jumpAnimFrame := None\<rparr>);
             s4 = (case animationFrame s3 of
                     None \<Rightarrow> s3
                   | Some h \<Rightarrow> (cancelAnimationFrame h s3)\<lparr>animationFrame := None\<rparr>);
             s5 = (case returnTimeout s4 of
                     None \<Rightarrow> s4
                   | Some h \<Rightarrow> (clearTimeout h s4)\<lparr>returnTimeout := None\<rparr>);
             s6 = s5\<lparr>state := (state s5)\<lparr>z := 0, zVelocity := 0, isJumping := False\<rparr>,
                     doc := (doc s5)\<lparr>tauntVisible := False,
                                     innerHTML := caughtText (opts inst),
                                     caughtClass := True,
                                     caughtShake := True\<rparr>\<rparr>;
             s7 = snd (setTimeout CaughtReturn 600 s6)
         in snd (setTimeout CaughtRestore (caughtDuration (opts inst)) s7)))"

definition destroy :: "Instance \<Rightarrow> Ctrl \<Rightarrow> Ctrl" where
  "destroy inst s =
     (let s1 = s\<lparr>listening := False\<rparr>;
          s2 = cancelIfSet (animationFrame s1) s1;
          s3 = cancelIfSet (jumpAnimFrame s2) s2;
          s4 = clearIfSet (returnTimeout s3) s3;
          s5 = clearIfSet (tauntTimeout s4) s4
      in s5\<lparr>doc := (doc s5)\<lparr>shadowAttached := False, wrapped := False,
                             innerHTML := originalContent inst, caughtClass := False\<rparr>\<rparr>)"

text \<open>What each timer callback of the source does when the host runs it.\<close>

fun runTimer :: "Instance \<Rightarrow> timer_cb \<Rightarrow> Ctrl \<Rightarrow> Ctrl" where
  "runTimer inst HideTaunt s = s\<lparr>doc := (doc s)\<lparr>tauntVisible := False\<rparr>\<rparr>"
| "runTimer inst ShadowFade s =
     s\<lparr>doc := (doc s)\<lparr>shadowTransition := ''opacity 0.25s ease-out'', shadowOpacity := 0\<rparr>\<rparr>"
| "runTimer inst LandingEnd s = s\<lparr>doc := (doc s)\<lparr>landingClass := False\<rparr>\<rparr>"
| "runTimer inst ReturnToCenter s = returnToCenter inst s"
| "runTimer inst CaughtReturn s =
     (let s1 = returnToCenter inst s
      in s1\<lparr>doc := (doc s1)\<lparr>shadowTransition := ''opacity 0.15s ease-out'', shadowOpacity := 0\<rparr>\<rparr>)"
| "runTimer inst CaughtRestore s =
     s\<lparr>doc := (doc s)\<lparr>innerHTML := originalContent inst, caughtClass := False,
                       caughtShake := False\<rparr>,
       state := (state s)\<lparr>isCaught := False\<rparr>\<rparr>"

definition runFrame :: "Instance \<Rightarrow> Env \<Rightarrow> real \<Rightarrow> frame_cb \<Rightarrow> Ctrl \<Rightarrow> Ctrl" where
  "runFrame inst env timestamp cb s =
     (case cb of SpringAnimate \<Rightarrow> springAnimate inst s
               | JumpAnimate \<Rightarrow> jumpAnimate inst env timestamp s)"

section \<open>Attach and the event loop\<close>

text \<open>
  \<^verbatim>\<open>makeEvasive\<close> up to the registration of the listeners: the arguments after the options
  are the \<^verbatim>\<open>Math.random\<close> sequence, the element's content and its bounding rectangle
  (left, top, width, height).
\<close>

definition initialState :: State where
  "initialState =
     \<lparr>currentX = 0, currentY = 0, velocityX = 0, velocityY = 0, targetX = 0, targetY = 0,
      isReturning = False, isJumping = False, isCaught = False, z = 0, zVelocity = 0,
      jumpStartX = 0, jumpStartY = 0, jumpTargetX = 0, jumpTargetY = 0,
      lastJumpTime = 0, lastTauntTime = 0\<rparr>"

definition makeInstance ::
  "Opts \<Rightarrow> (nat \<Rightarrow> real) \<Rightarrow> string \<Rightarrow> real \<Rightarrow> real \<Rightarrow> real \<Rightarrow> real \<Rightarrow> Instance" where
  "makeInstance os rnd content rleft rtop rwidth rheight =
     \<lparr>opts = os, startX = rleft + rwidth / 2, startY = rtop + rheight / 2,
      originalContent = content, random = rnd\<rparr>"

definition makeEvasive ::
  "Opts \<Rightarrow> (nat \<Rightarrow> real) \<Rightarrow> string \<Rightarrow> real \<Rightarrow> real \<Rightarrow> real \<Rightarrow> real \<Rightarrow> Ctrl" where
  "makeEvasive os rnd content rleft rtop rwidth rheight =
     (let inst = makeInstance os rnd content rleft rtop rwidth rheight
      in shuffleTauntQueue inst
           \<lparr>state = initialState,
            animationFrame = None, jumpAnimFrame = None,
            returnTimeout = None, tauntTimeout = None,
            tauntQueue = keys (length (taunts os)), lastTauntIndex = Some (- 1),
            doc = \<lparr>innerHTML = content, caughtClass = False,
                    wrapperLeft = startX inst, wrapperTop = startY inst,
                    landingClass = False, caughtShake = False,
                    tauntText = None, tauntVisible = False,
                    shadowLeft = startX inst, shadowTop = startY inst + rheight / 2 + 10,
                    shadowScale = 1, shadowOpacity = 0, shadowTransition = [],
                    shadowAttached = True, wrapped = True\<rparr>,
            timers = [], frames = [], nextTimer = 1, nextFrame = 1, clock = 0,
            randomCalls = 0, listening = True, calls = []\<rparr>)"

text \<open>
  The events the host can deliver. A pointer or click event reaches the controller only while
  its listeners are registered. A timer fires only when it is pending and due; an animation
  frame callback runs only when its request is pending. \<open>Elapse\<close> lets time pass. \<open>Destroy\<close>
  is a call of the teardown function that \<^verbatim>\<open>makeEvasive\<close> returned.
\<close>

datatype event =
    MouseMove Env real real
  | MouseLeave
  | Click
  | AnimationFrame nat Env real
  | Timeout nat
  | Elapse real
  | Destroy

fun step :: "Instance \<Rightarrow> Ctrl \<Rightarrow> event \<Rightarrow> Ctrl" where
  "step inst s (MouseMove env mx my) =
     (if listening s then handleMouseMove inst env mx my s else s)"
| "step inst s MouseLeave = (if listening s then handleMouseLeave inst s else s)"
| "step inst s Click = (if listening s then handleClick inst s else s)"
| "step inst s (AnimationFrame h env timestamp) =
     (case map_of (frames s) h of
        None \<Rightarrow> s
      | Some cb \<Rightarrow> runFrame inst env timestamp cb (cancelAnimationFrame h s))"
| "step inst s (Timeout h) =
     (case map_of (timers s) h of
        None \<Rightarrow> s
      | Some (due, cb) \<Rightarrow> if due \<le> clock s then runTimer inst cb (clearTimeout h s) else s)"
| "step inst s (Elapse dt) = s\<lparr>clock := clock s + max 0 dt\<rparr>"
| "step inst s Destroy = destroy inst s"

definition run :: "Instance \<Rightarrow> Ctrl \<Rightarrow> event list \<Rightarrow> Ctrl" where
  "run inst s evs = foldl (step inst) s evs"

section \<open>Observing the taunt queue\<close>

text \<open>
  The indices shown by successive calls of \<^verbatim>\<open>getNextTaunt\<close>: the index a call shows is the
  value it leaves in \<open>lastTauntIndex\<close>. Between two calls the controller calls
  \<^verbatim>\<open>Math.random()\<close> (once per escape); the list gives, for each call of \<^verbatim>\<open>getNextTaunt\<close>,
  how many random values were consumed since the call before.
\<close>

fun afterDraws :: "Instance \<Rightarrow> nat list \<Rightarrow> Ctrl \<Rightarrow> Ctrl" where
  "afterDraws inst [] s = s"
| "afterDraws inst (k # ks) s =
     afterDraws inst ks (snd (getNextTaunt inst (s\<lparr>randomCalls := randomCalls s + k\<rparr>)))"

fun draws :: "Instance \<Rightarrow> nat list \<Rightarrow> Ctrl \<Rightarrow> int option list" where
  "draws inst [] s = []"
| "draws inst (k # ks) s =
     (let s' = snd (getNextTaunt inst (s\<lparr>randomCalls := randomCalls s + k\<rparr>))
      in lastTauntIndex s' # draws inst ks s')"

text \<open>The queue holds no entry twice and does not hold the index shown last.\<close>

definition queueInv :: "Ctrl \<Rightarrow> bool" where
  "queueInv s \<longleftrightarrow> distinct (tauntQueue s) \<and> lastTauntIndex s \<notin> Some ` set (tauntQueue s)"

text \<open>The values of \<^verbatim>\<open>Math.random()\<close> lie in \<open>[0, 1)\<close>.\<close>

definition randomInRange :: "(nat \<Rightarrow> real) \<Rightarrow> bool" where
  "randomInRange rnd \<longleftrightarrow> (\<forall>n. 0 \<le> rnd n \<and> rnd n < 1)"

definition freshQueue :: "Instance \<Rightarrow> Ctrl \<Rightarrow> bool" where
  "freshQueue inst s \<longleftrightarrow>
     tauntQueue s = [] \<or> mset (tauntQueue s) = mset (keys (length (taunts (opts inst))))"

section \<open>Running the spring loop\<close>

text \<open>
  The display runs the callback registered under the handle \<open>animationFrame\<close>, once per
  frame, until the controller stops requesting a frame. The first argument after the instance
  bounds the number of frames: the result is \<open>None\<close> when the loop is still running after
  that many frames (or when the handle names no pending spring callback).
\<close>

fun springLoop :: "Instance \<Rightarrow> nat \<Rightarrow> Ctrl \<Rightarrow> Ctrl option" where
  "springLoop inst 0 s = (if animationFrame s = None then Some s else None)"
| "springLoop inst (Suc n) s =
     (case animationFrame s of
        None \<Rightarrow> Some s
      | Some h \<Rightarrow>
          (case map_of (frames s) h of
             Some SpringAnimate \<Rightarrow> springLoop inst n (springAnimate inst (cancelAnimationFrame h s))
           | _ \<Rightarrow> None))"

text \<open>
  A quadratic form of the offset from the target and the velocity that one spring frame
  multiplies by exactly 0.72 (the determinant of the frame's linear map).
\<close>

definition axisEnergy :: "real \<Rightarrow> real \<Rightarrow> real" where
  "axisEnergy x v = 864 * x\<^sup>2 + 1936 * x * v + 7200 * v\<^sup>2"

definition springEnergy :: "State \<Rightarrow> real" where
  "springEnergy st =
     axisEnergy (currentX st - targetX st) (velocityX st)
     + axisEnergy (currentY st - targetY st) (velocityY st)"

text \<open>
  Every pending frame request has an identifier below the next one to be handed out, and the
  handle \<open>animationFrame\<close>, when set, names a pending spring callback.
\<close>

definition springHandleOk :: "Ctrl \<Rightarrow> bool" where
  "springHandleOk s \<longleftrightarrow>
     (\<forall>f \<in> set (frames s). fst f < nextFrame s) \<and>
     (\<forall>h. animationFrame s = Some h \<longrightarrow> map_of (frames s) h = Some SpringAnimate)"

section \<open>The caught window\<close>

text \<open>
  The timers are well formed: every pending timer has an identifier below the next one to be
  handed out, so has the handle \<open>tauntTimeout\<close>, and while the element is not caught no
  timer that ends a caught window is pending.
\<close>

definition timersOk :: "Ctrl \<Rightarrow> bool" where
  "timersOk s \<longleftrightarrow>
     (\<forall>x \<in> set (timers s). fst x < nextTimer s) \<and>
     (\<forall>h. tauntTimeout s = Some h \<longrightarrow> h < nextTimer s) \<and>
     (\<not> isCaught (state s) \<longrightarrow> (\<forall>x \<in> set (timers s). snd (snd x) \<noteq> CaughtRestore))"

text \<open>
  The caught window opened by a click: the element is caught, the timer \<open>r\<close> that ends the
  window is pending with due time \<open>due\<close>, it is the only pending timer of its kind, and
  neither timer handle of the controller refers to it.
\<close>

definition caughtWindow :: "nat \<Rightarrow> real \<Rightarrow> Ctrl \<Rightarrow> bool" where
  "caughtWindow r due t \<longleftrightarrow>
     map_of (timers t) r = Some (due, CaughtRestore) \<and>
     isCaught (state t) \<and>
     returnTimeout t \<noteq> Some r \<and> tauntTimeout t \<noteq> Some r \<and>
     (\<forall>x \<in> set (timers t). snd (snd x) = CaughtRestore \<longrightarrow> fst x = r) \<and>
     (\<forall>x \<in> set (timers t). fst x < nextTimer t)"

text \<open>
  A step of the controller that opens or closes no caught window: identifiers only grow,
  every timer pending afterwards was pending before or is a new one of another kind than the
  one that ends a caught window, the handle \<open>tauntTimeout\<close> is unchanged or names a timer
  handed out so far, and \<open>isCaught\<close> is unchanged.
\<close>

definition timersGrow :: "Ctrl \<Rightarrow> Ctrl \<Rightarrow> bool" where
  "timersGrow s s' \<longleftrightarrow>
     nextTimer s \<le> nextTimer s' \<and>
     (\<forall>x \<in> set (timers s'). x \<in> set (timers s)
         \<or> (nextTimer s \<le> fst x \<and> fst x < nextTimer s' \<and> snd (snd x) \<noteq> CaughtRestore)) \<and>
     (tauntTimeout s' = tauntTimeout s \<or> (\<exists>h. tauntTimeout s' = Some h \<and> h < nextTimer s')) \<and>
     isCaught (state s') = isCaught (state s)"

text \<open>
  What holds in every state the controller reaches: the timers are well formed, and while
  the element is caught a caught window is open.
\<close>

definition reachInv :: "Ctrl \<Rightarrow> bool" where
  "reachInv s \<longleftrightarrow> timersOk s \<and> (isCaught (state s) \<longrightarrow> (\<exists>r due. caughtWindow r due s))"

text \<open>
  Every pending animation frame request is the one its handle names: a spring callback is
  registered under \<open>animationFrame\<close>, a jump callback under \<open>jumpAnimFrame\<close>.
\<close>

definition framesTracked :: "Ctrl \<Rightarrow> bool" where
  "framesTracked s \<longleftrightarrow>
     (\<forall>f \<in> set (frames s).
        (snd f = SpringAnimate \<and> animationFrame s = Some (fst f))
        \<or> (snd f = JumpAnimate \<and> jumpAnimFrame s = Some (fst f)))"

section \<open>Example configurations\<close>

definition DEFAULT_TAUNTS :: "string list" where
  "DEFAULT_TAUNTS =
     [''LMAOOOOOO'', ''BRO THOUGHT HE HAD ME'', ''I'M FAST AS FUCK BOI'', ''L + RATIO + TOO SLOW'',
      ''UR SO MADDDD'', ''SKILL ISSUE'', ''NICE TRY LIL BRO'', ''I'M CRYINGGG'', ''NOPE'',
      ''TOO SLOW'']"

text \<open>The options when the caller passes none, with both callbacks supplied.\<close>

definition defaultOpts :: Opts where
  "defaultOpts =
     \<lparr>detectionRadius = 140, escapeDistance = 280, edgePadding = 60,
      taunts = DEFAULT_TAUNTS, tauntProbability = 75 / 100,
      showShadow = True, screenShake = True, onEscape = True, onCatch = True,
      caughtText = ''Wait... HOW?!'', caughtDuration = 1100\<rparr>"

text \<open>A viewport of 1280 by 720 pixels with the button at rest in its middle.\<close>

definition exampleEnv :: Env where
  "exampleEnv =
     \<lparr>centerX = 640, centerY = 360, innerWidth = 1280, innerHeight = 720,
      rectWidth = 100, offsetHeight = 40, dateNow = 1700000000000,
      rounding = (\<lambda>angle. noRounding)\<rparr>"

text \<open>
  The same viewport on a host whose arithmetic rounds the displacement of the candidate at
  angle -0.6 up by one unit in the last place, and the others exactly.
\<close>

definition roundedEnv :: Env where
  "roundedEnv =
     exampleEnv\<lparr>rounding := (\<lambda>angle. if angle = - (6 / 10) then oneUlp else noRounding)\<rparr>"

definition threeTaunts :: Opts where
  "threeTaunts = defaultOpts\<lparr>taunts := [''NOPE'', ''TOO SLOW'', ''SKILL ISSUE'']\<rparr>"

text \<open>A sequence of random values: 0.7 everywhere, except for 0 at the eighth call.\<close>

definition exampleRandom :: "nat \<Rightarrow> real" where
  "exampleRandom n = (if n = 7 then 0 else 7 / 10)"

text \<open>A button with content \<open>Click me\<close>, 100 by 40 pixels, at (590, 340).\<close>

definition exampleInstance :: "Opts \<Rightarrow> Instance" where
  "exampleInstance os = makeInstance os exampleRandom ''Click me'' 590 340 100 40"

definition exampleCtrl :: "Opts \<Rightarrow> Ctrl" where
  "exampleCtrl os = makeEvasive os exampleRandom ''Click me'' 590 340 100 40"

text \<open>A phone viewport of 320 by 640 pixels with a button 220 pixels wide in its middle.\<close>

definition narrowEnv :: Env where
  "narrowEnv =
     \<lparr>centerX = 160, centerY = 320, innerWidth = 320, innerHeight = 640,
      rectWidth = 220, offsetHeight = 40, dateNow = 1700000000000,
      rounding = (\<lambda>angle. noRounding)\<rparr>"

text \<open>
  A jump from the rest position to a destination 10 pixels to the right, and the state
  after its first frame.
\<close>

definition shortJump :: Ctrl where
  "shortJump =
     startJump (exampleInstance defaultOpts) 10 0
       ((exampleCtrl defaultOpts)\<lparr>state := initialState\<lparr>isJumping := True\<rparr>\<rparr>)"

definition shortJumpFrame :: Ctrl where
  "shortJumpFrame = jumpAnimate (exampleInstance defaultOpts) exampleEnv 16 shortJump"

text \<open>
  A jump whose destination is the rest position itself, and a jump to the destination
  10 pixels to the right that is falling just above the ground after half a second.
\<close>

definition zeroJump :: Ctrl where
  "zeroJump =
     startJump (exampleInstance defaultOpts) 0 0
       ((exampleCtrl defaultOpts)\<lparr>state := initialState\<lparr>isJumping := True\<rparr>\<rparr>)"

definition fallingJump :: Ctrl where
  "fallingJump =
     shortJump\<lparr>state := (state shortJump)\<lparr>z := 1, zVelocity := - 800, lastJumpTime := 500\<rparr>\<rparr>"

text \<open>The button 3 pixels right of and 4 pixels below its anchor, at rest.\<close>

definition displaced :: Ctrl where
  "displaced = (exampleCtrl defaultOpts)\<lparr>state := initialState\<lparr>currentX := 3, currentY := 4\<rparr>\<rparr>"

text \<open>
  Two event sequences after attach. In the first the pointer comes within 50 pixels of the
  button, the first frame of the jump runs, the pointer leaves the document, and 200 ms
  later the timer set by the leave handler fires. In the second the button is clicked, the
  teardown function is called, and 600 ms later the first timer set by the click handler
  fires.
\<close>

definition leaveDuringJump :: "event list" where
  "leaveDuringJump =
     [MouseMove exampleEnv 590 360, AnimationFrame 1 exampleEnv 16, MouseLeave,
      Elapse 200, Timeout 2]"

definition detachWhileCaught :: "event list" where
  "detachWhileCaught = [Click, Destroy, Elapse 600, Timeout 1]"

text \<open>The state after attach and one pointer-leave event.\<close>

definition afterLeave :: Ctrl where
  "afterLeave = run (exampleInstance defaultOpts) (exampleCtrl defaultOpts) [MouseLeave]"

section \<open>Effect of the host services on each variable\<close>

lemma fields_setTimeout [simp]:
  "state (snd (setTimeout cb d s)) = state s"
  "animationFrame (snd (setTimeout cb d s)) = animationFrame s"
  "jumpAnimFrame (snd (setTimeout cb d s)) = jumpAnimFrame s"
  "returnTimeout (snd (setTimeout cb d s)) = returnTimeout s"
  "tauntTimeout (snd (setTimeout cb d s)) = tauntTimeout s"
  "tauntQueue (snd (setTimeout cb d s)) = tauntQueue s"
  "lastTauntIndex (snd (setTimeout cb d s)) = lastTauntIndex s"
  "doc (snd (setTimeout cb d s)) = doc s"
  "timers (snd (setTimeout cb d s)) = timers s @ [(nextTimer s, clock s + max 0 d, cb)]"
  "frames (snd (setTimeout cb d s)) = frames s"
  "nextTimer (snd (setTimeout cb d s)) = Suc (nextTimer s)"
  "nextFrame (snd (setTimeout cb d s)) = nextFrame s"
  "clock (snd (setTimeout cb d s)) = clock s"
  "randomCalls (snd (setTimeout cb d s)) = randomCalls s"
  "listening (snd (setTimeout cb d s)) = listening s"
  "calls (snd (setTimeout cb d s)) = calls s"
  "fst (setTimeout cb d s) = nextTimer s"
  by (simp_all add: setTimeout_def)

lemma fields_clearTimeout [simp]:
  "state (clearTimeout h s) = state s"
  "animationFrame (clearTimeout h s) = animationFrame s"
  "jumpAnimFrame (clearTimeout h s) = jumpAnimFrame s"
  "returnTimeout (clearTimeout h s) = returnTimeout s"
  "tauntTimeout (clearTimeout h s) = tauntTimeout s"
  "tauntQueue (clearTimeout h s) = tauntQueue s"
  "lastTauntIndex (clearTimeout h s) = lastTauntIndex s"
  "doc (clearTimeout h s) = doc s"
  "timers (clearTimeout h s) = filter (\<lambda>t. fst t \<noteq> h) (timers s)"
  "frames (clearTimeout h s) = frames s"
  "nextTimer (clearTimeout h s) = nextTimer s"
  "nextFrame (clearTimeout h s) = nextFrame s"
  "clock (clearTimeout h s) = clock s"
  "randomCalls (clearTimeout h s) = randomCalls s"
  "listening (clearTimeout h s) = listening s"
  "calls (clearTimeout h s) = calls s"
  by (simp_all add: clearTimeout_def)

lemma fields_requestAnimationFrame [simp]:
  "state (snd (requestAnimationFrame cb s)) = state s"
  "animationFrame (snd (requestAnimationFrame cb s)) = animationFrame s"
  "jumpAnimFrame (snd (requestAnimationFrame cb s)) = jumpAnimFrame s"
  "returnTimeout (snd (requestAnimationFrame cb s)) = returnTimeout s"
  "tauntTimeout (snd (requestAnimationFrame cb s)) = tauntTimeout s"
  "tauntQueue (snd (requestAnimationFrame cb s)) = tauntQueue s"
  "lastTauntIndex (snd (requestAnimationFrame cb s)) = lastTauntIndex s"
  "doc (snd (requestAnimationFrame cb s)) = doc s"
  "timers (snd (requestAnimationFrame cb s)) = timers s"
  "frames (snd (requestAnimationFrame cb s)) = frames s @ [(nextFrame s, cb)]"
  "nextTimer (snd (requestAnimationFrame cb s)) = nextTimer s"
  "nextFrame (snd (requestAnimationFrame cb s)) = Suc (nextFrame s)"
  "clock (snd (requestAnimationFrame cb s)) = clock s"
  "randomCalls (snd (requestAnimationFrame cb s)) = randomCalls s"
  "listening (snd (requestAnimationFrame cb s)) = listening s"
  "calls (snd (requestAnimationFrame cb s)) = calls s"
  "fst (requestAnimationFrame cb s) = nextFrame s"
  by (simp_all add: requestAnimationFrame_def)

lemma fields_cancelAnimationFrame [simp]:
  "state (cancelAnimationFrame h s) = state s"
  "animationFrame (cancelAnimationFrame h s) = animationFrame s"
  "jumpAnimFrame (cancelAnimationFrame h s) = jumpAnimFrame s"
  "returnTimeout (cancelAnimationFrame h s) = returnTimeout s"
  "tauntTimeout (cancelAnimationFrame h s) = tauntTimeout s"
  "tauntQueue (cancelAnimationFrame h s) = tauntQueue s"
  "lastTauntIndex (cancelAnimationFrame h s) = lastTauntIndex s"
  "doc (cancelAnimationFrame h s) = doc s"
  "timers (cancelAnimationFrame h s) = timers s"
  "frames (cancelAnimationFrame h s) = filter (\<lambda>f. fst f \<noteq> h) (frames s)"
  "nextTimer (cancelAnimationFrame h s) = nextTimer s"
  "nextFrame (cancelAnimationFrame h s) = nextFrame s"
  "clock (cancelAnimationFrame h s) = clock s"
  "randomCalls (cancelAnimationFrame h s) = randomCalls s"
  "listening (cancelAnimationFrame h s) = listening s"
  "calls (cancelAnimationFrame h s) = calls s"
  by (simp_all add: cancelAnimationFrame_def)

lemma fields_clearIfSet [simp]:
  "state (clearIfSet ho s) = state s"
  "animationFrame (clearIfSet ho s) = animationFrame s"
  "jumpAnimFrame (clearIfSet ho s) = jumpAnimFrame s"
  "returnTimeout (clearIfSet ho s) = returnTimeout s"
  "tauntTimeout (clearIfSet ho s) = tauntTimeout s"
  "tauntQueue (clearIfSet ho s) = tauntQueue s"
  "lastTauntIndex (clearIfSet ho s) = lastTauntIndex s"
  "doc (clearIfSet ho s) = doc s"
  "timers (clearIfSet ho s) = (case ho of None \<Rightarrow> timers s | Some h \<Rightarrow> filter (\<lambda>t. fst t \<noteq> h) (timers s))"
  "frames (clearIfSet ho s) = frames s"
  "nextTimer (clearIfSet ho s) = nextTimer s"
  "nextFrame (clearIfSet ho s) = nextFrame s"
  "clock (clearIfSet ho s) = clock s"
  "randomCalls (clearIfSet ho s) = randomCalls s"
  "listening (clearIfSet ho s) = listening s"
  "calls (clearIfSet ho s) = calls s"
  by (simp_all add: clearIfSet_def clearTimeout_def split: option.splits)

lemma fields_cancelIfSet [simp]:
  "state (cancelIfSet ho s) = state s"
  "animationFrame (cancelIfSet ho s) = animationFrame s"
  "jumpAnimFrame (cancelIfSet ho s) = jumpAnimFrame s"
  "returnTimeout (cancelIfSet ho s) = returnTimeout s"
  "tauntTimeout (cancelIfSet ho s) = tauntTimeout s"
  "tauntQueue (cancelIfSet ho s) = tauntQueue s"
  "lastTauntIndex (cancelIfSet ho s) = lastTauntIndex s"
  "doc (cancelIfSet ho s) = doc s"
  "timers (cancelIfSet ho s) = timers s"
  "frames (cancelIfSet ho s) = (case ho of None \<Rightarrow> frames s | Some h \<Rightarrow> filter (\<lambda>f. fst f \<noteq> h) (frames s))"
  "nextTimer (cancelIfSet ho s) = nextTimer s"
  "nextFrame (cancelIfSet ho s) = nextFrame s"
  "clock (cancelIfSet ho s) = clock s"
  "randomCalls (cancelIfSet ho s) = randomCalls s"
  "listening (cancelIfSet ho s) = listening s"
  "calls (cancelIfSet ho s) = calls s"
  by (simp_all add: cancelIfSet_def cancelAnimationFrame_def split: option.splits)

lemma fields_updatePosition [simp]:
  "state (updatePosition inst s) = state s"
  "animationFrame (updatePosition inst s) = animationFrame s"
  "jumpAnimFrame (updatePosition inst s) = jumpAnimFrame s"
  "returnTimeout (updatePosition inst s) = returnTimeout s"
  "tauntTimeout (updatePosition inst s) = tauntTimeout s"
  "tauntQueue (updatePosition inst s) = tauntQueue s"
  "lastTauntIndex (updatePosition inst s) = lastTauntIndex s"
  "timers (updatePosition inst s) = timers s"
  "frames (updatePosition inst s) = frames s"
  "nextTimer (updatePosition inst s) = nextTimer s"
  "nextFrame (updatePosition inst s) = nextFrame s"
  "clock (updatePosition inst s) = clock s"
  "randomCalls (updatePosition inst s) = randomCalls s"
  "listening (updatePosition inst s) = listening s"
  "calls (updatePosition inst s) = calls s"
  by (simp_all add: updatePosition_def)

lemma fields_updateShadow [simp]:
  "state (updateShadow inst env height s) = state s"
  "animationFrame (updateShadow inst env height s) = animationFrame s"
  "jumpAnimFrame (updateShadow inst env height s) = jumpAnimFrame s"
  "returnTimeout (updateShadow inst env height s) = returnTimeout s"
  "tauntTimeout (updateShadow inst env height s) = tauntTimeout s"
  "tauntQueue (updateShadow inst env height s) = tauntQueue s"
  "lastTauntIndex (updateShadow inst env height s) = lastTauntIndex s"
  "timers (updateShadow inst env height s) = timers s"
  "frames (updateShadow inst env height s) = frames s"
  "nextTimer (updateShadow inst env height s) = nextTimer s"
  "nextFrame (updateShadow inst env height s) = nextFrame s"
  "clock (updateShadow inst env height s) = clock s"
  "randomCalls (updateShadow inst env height s) = randomCalls s"
  "listening (updateShadow inst env height s) = listening s"
  "calls (updateShadow inst env height s) = calls s"
  by (simp_all add: updateShadow_def Let_def)

section \<open>Variables that each function of the controller leaves alone\<close>

lemma keeps_shuffleTauntQueue [simp]:
  "state (shuffleTauntQueue inst s) = state s"
  "animationFrame (shuffleTauntQueue inst s) = animationFrame s"
  "jumpAnimFrame (shuffleTauntQueue inst s) = jumpAnimFrame s"
  "returnTimeout (shuffleTauntQueue inst s) = returnTimeout s"
  "tauntTimeout (shuffleTauntQueue inst s) = tauntTimeout s"
  "doc (shuffleTauntQueue inst s) = doc s"
  "timers (shuffleTauntQueue inst s) = timers s"
  "frames (shuffleTauntQueue inst s) = frames s"
  "nextTimer (shuffleTauntQueue inst s) = nextTimer s"
  "nextFrame (shuffleTauntQueue inst s) = nextFrame s"
  "clock (shuffleTauntQueue inst s) = clock s"
  "listening (shuffleTauntQueue inst s) = listening s"
  "calls (shuffleTauntQueue inst s) = calls s"
  by (simp_all add: shuffleTauntQueue_def case_prod_beta)

lemma keeps_refillQueue [simp]:
  "state (refillQueue inst s) = state s"
  "animationFrame (refillQueue inst s) = animationFrame s"
  "jumpAnimFrame (refillQueue inst s) = jumpAnimFrame s"
  "returnTimeout (refillQueue inst s) = returnTimeout s"
  "tauntTimeout (refillQueue inst s) = tauntTimeout s"
  "doc (refillQueue inst s) = doc s"
  "timers (refillQueue inst s) = timers s"
  "frames (refillQueue inst s) = frames s"
  "nextTimer (refillQueue inst s) = nextTimer s"
  "nextFrame (refillQueue inst s) = nextFrame s"
  "clock (refillQueue inst s) = clock s"
  "listening (refillQueue inst s) = listening s"
  "calls (refillQueue inst s) = calls s"
  by (simp_all add: refillQueue_def)

lemma keeps_getNextTaunt [simp]:
  "state (snd (getNextTaunt inst s)) = state s"
  "animationFrame (snd (getNextTaunt inst s)) = animationFrame s"
  "jumpAnimFrame (snd (getNextTaunt inst s)) = jumpAnimFrame s"
  "returnTimeout (snd (getNextTaunt inst s)) = returnTimeout s"
  "tauntTimeout (snd (getNextTaunt inst s)) = tauntTimeout s"
  "doc (snd (getNextTaunt inst s)) = doc s"
  "timers (snd (getNextTaunt inst s)) = timers s"
  "frames (snd (getNextTaunt inst s)) = frames s"
  "nextTimer (snd (getNextTaunt inst s)) = nextTimer s"
  "nextFrame (snd (getNextTaunt inst s)) = nextFrame s"
  "clock (snd (getNextTaunt inst s)) = clock s"
  "listening (snd (getNextTaunt inst s)) = listening s"
  "calls (snd (getNextTaunt inst s)) = calls s"
  by (simp_all add: getNextTaunt_def Let_def)

lemma keeps_showTaunt [simp]:
  "animationFrame (showTaunt inst env s) = animationFrame s"
  "jumpAnimFrame (showTaunt inst env s) = jumpAnimFrame s"
  "returnTimeout (showTaunt inst env s) = returnTimeout s"
  "frames (showTaunt inst env s) = frames s"
  "nextFrame (showTaunt inst env s) = nextFrame s"
  "clock (showTaunt inst env s) = clock s"
  "listening (showTaunt inst env s) = listening s"
  "calls (showTaunt inst env s) = calls s"
  by (simp_all add: showTaunt_def Let_def case_prod_beta)

lemma keeps_startJump [simp]:
  "animationFrame (startJump inst x y s) = animationFrame s"
  "returnTimeout (startJump inst x y s) = returnTimeout s"
  "tauntTimeout (startJump inst x y s) = tauntTimeout s"
  "timers (startJump inst x y s) = timers s"
  "nextTimer (startJump inst x y s) = nextTimer s"
  "clock (startJump inst x y s) = clock s"
  "randomCalls (startJump inst x y s) = randomCalls s"
  "listening (startJump inst x y s) = listening s"
  "calls (startJump inst x y s) = calls s"
  by (simp_all add: startJump_def Let_def case_prod_beta)

lemma keeps_returnToCenter [simp]:
  "jumpAnimFrame (returnToCenter inst s) = jumpAnimFrame s"
  "returnTimeout (returnToCenter inst s) = returnTimeout s"
  "tauntTimeout (returnToCenter inst s) = tauntTimeout s"
  "timers (returnToCenter inst s) = timers s"
  "nextTimer (returnToCenter inst s) = nextTimer s"
  "clock (returnToCenter inst s) = clock s"
  "randomCalls (returnToCenter inst s) = randomCalls s"
  "listening (returnToCenter inst s) = listening s"
  "calls (returnToCenter inst s) = calls s"
  by (simp_all add: returnToCenter_def Let_def case_prod_beta)

lemma keeps_springAnimate [simp]:
  "jumpAnimFrame (springAnimate inst s) = jumpAnimFrame s"
  "returnTimeout (springAnimate inst s) = returnTimeout s"
  "tauntTimeout (springAnimate inst s) = tauntTimeout s"
  "timers (springAnimate inst s) = timers s"
  "nextTimer (springAnimate inst s) = nextTimer s"
  "clock (springAnimate inst s) = clock s"
  "randomCalls (springAnimate inst s) = randomCalls s"
  "listening (springAnimate inst s) = listening s"
  "calls (springAnimate inst s) = calls s"
  by (simp_all add: springAnimate_def Let_def case_prod_beta)

lemma keeps_jumpAnimate [simp]:
  "animationFrame (jumpAnimate inst env ts s) = animationFrame s"
  "tauntTimeout (jumpAnimate inst env ts s) = tauntTimeout s"
  "clock (jumpAnimate inst env ts s) = clock s"
  "randomCalls (jumpAnimate inst env ts s) = randomCalls s"
  "listening (jumpAnimate inst env ts s) = listening s"
  "calls (jumpAnimate inst env ts s) = calls s"
  by (simp_all add: jumpAnimate_def Let_def case_prod_beta)

lemma keeps_escapeJump [simp]:
  "tauntTimeout (escapeJump inst env mx my s) = tauntTimeout s"
  "nextTimer (escapeJump inst env mx my s) = nextTimer s"
  "clock (escapeJump inst env mx my s) = clock s"
  "randomCalls (escapeJump inst env mx my s) = randomCalls s"
  "listening (escapeJump inst env mx my s) = listening s"
  by (simp_all add: escapeJump_def Let_def case_prod_beta split: option.splits)

lemma keeps_handleMouseLeave [simp]:
  "state (handleMouseLeave inst s) = state s"
  "animationFrame (handleMouseLeave inst s) = animationFrame s"
  "jumpAnimFrame (handleMouseLeave inst s) = jumpAnimFrame s"
  "tauntTimeout (handleMouseLeave inst s) = tauntTimeout s"
  "doc (handleMouseLeave inst s) = doc s"
  "frames (handleMouseLeave inst s) = frames s"
  "nextFrame (handleMouseLeave inst s) = nextFrame s"
  "clock (handleMouseLeave inst s) = clock s"
  "randomCalls (handleMouseLeave inst s) = randomCalls s"
  "listening (handleMouseLeave inst s) = listening s"
  "calls (handleMouseLeave inst s) = calls s"
  by (simp_all add: handleMouseLeave_def Let_def case_prod_beta)

lemma keeps_handleClick [simp]:
  "tauntTimeout (handleClick inst s) = tauntTimeout s"
  "nextFrame (handleClick inst s) = nextFrame s"
  "clock (handleClick inst s) = clock s"
  "randomCalls (handleClick inst s) = randomCalls s"
  "listening (handleClick inst s) = listening s"
  by (simp_all add: handleClick_def Let_def split: option.splits)

lemma keeps_destroy [simp]:
  "state (destroy inst s) = state s"
  "animationFrame (destroy inst s) = animationFrame s"
  "jumpAnimFrame (destroy inst s) = jumpAnimFrame s"
  "returnTimeout (destroy inst s) = returnTimeout s"
  "tauntTimeout (destroy inst s) = tauntTimeout s"
  "nextTimer (destroy inst s) = nextTimer s"
  "nextFrame (destroy inst s) = nextFrame s"
  "clock (destroy inst s) = clock s"
  "randomCalls (destroy inst s) = randomCalls s"
  "calls (destroy inst s) = calls s"
  by (simp_all add: destroy_def Let_def)

section \<open>The example configurations\<close>

lemma exampleInstance_fields [simp]:
  "opts (exampleInstance os) = os"
  "originalContent (exampleInstance os) = ''Click me''"
  by (simp_all add: exampleInstance_def makeInstance_def)

lemma exampleCtrl_fields [simp]:
  "state (exampleCtrl os) = initialState"
  "calls (exampleCtrl os) = []"
  "frames (exampleCtrl os) = []"
  "timers (exampleCtrl os) = []"
  "nextFrame (exampleCtrl os) = 1"
  "nextTimer (exampleCtrl os) = 1"
  "animationFrame (exampleCtrl os) = None"
  "jumpAnimFrame (exampleCtrl os) = None"
  "returnTimeout (exampleCtrl os) = None"
  "tauntTimeout (exampleCtrl os) = None"
  "listening (exampleCtrl os)"
  "clock (exampleCtrl os) = 0"
  "innerHTML (doc (exampleCtrl os)) = ''Click me''"
  by (simp_all add: exampleCtrl_def makeEvasive_def Let_def shuffleTauntQueue_def case_prod_beta)

section \<open>The taunt queue never shows an index twice in a row\<close>

lemma mset_swap_q: "mset (swap i j q) = mset q"
  by (simp add: swap_def mset_swap)

lemma mset_shuffleLoop: "mset (snd (shuffleLoop rnd p i q)) = mset q"
  by (induction i arbitrary: p q) (simp_all add: Let_def mset_swap_q)

lemma shuffle_queue: "mset (tauntQueue (shuffleTauntQueue inst s)) = mset (tauntQueue s)"
  and shuffle_last: "lastTauntIndex (shuffleTauntQueue inst s) = lastTauntIndex s"
  using mset_shuffleLoop[of "random inst" "randomCalls s" "length (tauntQueue s) - 1" "tauntQueue s"]
  by (simp_all add: shuffleTauntQueue_def case_prod_beta)

lemma distinct_keys: "distinct (keys n)"
  by (simp add: keys_def distinct_map)

lemma length_keys: "length (keys n) = n"
  by (simp add: keys_def)

lemma set_keys: "set (keys n) = int ` {0..<n}"
  by (simp add: keys_def)

lemma refill_last: "lastTauntIndex (refillQueue inst s) = lastTauntIndex s"
  by (simp add: refillQueue_def shuffle_last)

lemma refill_nonempty: "tauntQueue s \<noteq> [] \<Longrightarrow> refillQueue inst s = s"
  by (simp add: refillQueue_def)

lemma refill_empty:
  "tauntQueue s = [] \<Longrightarrow> mset (tauntQueue (refillQueue inst s)) = mset (keys (length (taunts (opts inst))))"
  by (simp add: refillQueue_def shuffle_queue)

lemma mset_avoidRepeat: "mset (avoidRepeat l q) = mset q"
  by (simp add: avoidRepeat_def mset_swap_q split: option.splits)

lemma head_avoidRepeat:
  assumes "distinct q" and "1 < length q \<or> head q \<noteq> l"
  shows "head (avoidRepeat l q) \<noteq> l"
proof (cases "head q = l")
  case False
  then show ?thesis by (simp add: avoidRepeat_def)
next
  case True
  with assms have "1 < length q" by simp
  then obtain a b r where q: "q = a # b # r"
    by (cases q; cases "tl q") auto
  with True have l: "l = Some a" by (simp add: head_def)
  from q assms(1) have "a \<noteq> b" by auto
  with q l show ?thesis
    by (auto simp add: avoidRepeat_def head_def swap_def)
qed

lemma head_Some: "q \<noteq> [] \<Longrightarrow> head q = Some (hd q)"
  by (cases q) (simp_all add: head_def)

lemma getNextTaunt_step:
  assumes n: "1 < length (taunts (opts inst))" and inv: "queueInv s"
  shows "queueInv (snd (getNextTaunt inst s))"
    and "lastTauntIndex (snd (getNextTaunt inst s)) \<noteq> lastTauntIndex s"
proof -
  let ?s1 = "refillQueue inst s"
  let ?q1 = "tauntQueue ?s1"
  let ?q2 = "avoidRepeat (lastTauntIndex ?s1) ?q1"
  have d1: "distinct ?q1"
  proof (cases "tauntQueue s = []")
    case True
    then have "mset ?q1 = mset (keys (length (taunts (opts inst))))" by (rule refill_empty)
    then show ?thesis using distinct_keys by (metis mset_eq_imp_distinct_iff)
  next
    case False
    then show ?thesis using inv by (simp add: refill_nonempty queueInv_def)
  qed
  have c1: "1 < length ?q1 \<or> head ?q1 \<noteq> lastTauntIndex ?s1"
  proof (cases "tauntQueue s = []")
    case True
    then have "mset ?q1 = mset (keys (length (taunts (opts inst))))" by (rule refill_empty)
    then have "length ?q1 = length (taunts (opts inst))"
      by (metis length_keys size_mset)
    then show ?thesis using n by simp
  next
    case False
    then have "head (tauntQueue s) \<noteq> lastTauntIndex s"
      using inv by (cases "tauntQueue s") (auto simp add: queueInv_def head_def)
    with False show ?thesis by (simp add: refill_nonempty)
  qed
  have ne1: "?q1 \<noteq> []"
  proof (cases "tauntQueue s = []")
    case True
    then have "mset ?q1 = mset (keys (length (taunts (opts inst))))" by (rule refill_empty)
    then have "length ?q1 = length (taunts (opts inst))"
      by (metis length_keys size_mset)
    then show ?thesis using n by auto
  next
    case False
    then show ?thesis by (simp add: refill_nonempty)
  qed
  have d2: "distinct ?q2" using d1 mset_avoidRepeat by (metis mset_eq_imp_distinct_iff)
  have ne2: "?q2 \<noteq> []" using ne1 mset_avoidRepeat by (metis mset_zero_iff)
  have h2: "head ?q2 \<noteq> lastTauntIndex ?s1" using d1 c1 by (rule head_avoidRepeat)
  have st: "snd (getNextTaunt inst s) = ?s1\<lparr>tauntQueue := tl ?q2, lastTauntIndex := head ?q2\<rparr>"
    by (simp add: getNextTaunt_def Let_def)
  show "queueInv (snd (getNextTaunt inst s))"
    using d2 ne2 by (cases ?q2) (auto simp add: st queueInv_def head_def distinct_tl)
  show "lastTauntIndex (snd (getNextTaunt inst s)) \<noteq> lastTauntIndex s"
    using h2 by (simp add: st refill_last)
qed


lemma queue_springAnimate [simp]:
  "tauntQueue (springAnimate inst s) = tauntQueue s"
  "lastTauntIndex (springAnimate inst s) = lastTauntIndex s"
  by (simp_all add: springAnimate_def Let_def case_prod_beta)

lemma queue_returnToCenter [simp]:
  "tauntQueue (returnToCenter inst s) = tauntQueue s"
  "lastTauntIndex (returnToCenter inst s) = lastTauntIndex s"
  by (simp_all add: returnToCenter_def Let_def case_prod_beta)

lemma queue_jumpAnimate [simp]:
  "tauntQueue (jumpAnimate inst env ts s) = tauntQueue s"
  "lastTauntIndex (jumpAnimate inst env ts s) = lastTauntIndex s"
  by (simp_all add: jumpAnimate_def Let_def case_prod_beta)


lemma queue_startJump [simp]:
  "tauntQueue (startJump inst x y s) = tauntQueue s"
  "lastTauntIndex (startJump inst x y s) = lastTauntIndex s"
  by (simp_all add: startJump_def Let_def case_prod_beta)

lemma queue_handleMouseLeave [simp]:
  "tauntQueue (handleMouseLeave inst s) = tauntQueue s"
  "lastTauntIndex (handleMouseLeave inst s) = lastTauntIndex s"
  by (simp_all add: handleMouseLeave_def Let_def case_prod_beta)

lemma queue_handleClick [simp]:
  "tauntQueue (handleClick inst s) = tauntQueue s"
  "lastTauntIndex (handleClick inst s) = lastTauntIndex s"
  by (simp_all add: handleClick_def Let_def split: option.splits)

lemma queue_destroy [simp]:
  "tauntQueue (destroy inst s) = tauntQueue s"
  "lastTauntIndex (destroy inst s) = lastTauntIndex s"
  by (simp_all add: destroy_def Let_def)

lemma queue_runTimer [simp]:
  "tauntQueue (runTimer inst cb s) = tauntQueue s"
  "lastTauntIndex (runTimer inst cb s) = lastTauntIndex s"
  by (cases cb; simp add: Let_def) (cases cb; simp add: Let_def)

lemma queue_runFrame [simp]:
  "tauntQueue (runFrame inst env ts cb s) = tauntQueue s"
  "lastTauntIndex (runFrame inst env ts cb s) = lastTauntIndex s"
  by (cases cb; simp add: runFrame_def) (cases cb; simp add: runFrame_def)



lemma queueInv_cong:
  "tauntQueue s' = tauntQueue s \<Longrightarrow> lastTauntIndex s' = lastTauntIndex s \<Longrightarrow> queueInv s' = queueInv s"
  by (simp add: queueInv_def)

lemma queueInv_showTaunt:
  assumes "1 < length (taunts (opts inst))" and "queueInv s"
  shows "queueInv (showTaunt inst env s)"
proof (cases "dateNow env - lastTauntTime (state s) > 600")
  case False
  then show ?thesis using assms by (simp add: showTaunt_def)
next
  case True
  let ?s1 = "s\<lparr>state := (state s)\<lparr>lastTauntTime := dateNow env\<rparr>\<rparr>"
  have "queueInv ?s1" using assms(2) by (simp add: queueInv_def)
  then have "queueInv (snd (getNextTaunt inst ?s1))"
    using assms(1) getNextTaunt_step(1) by blast
  moreover have "tauntQueue (showTaunt inst env s) = tauntQueue (snd (getNextTaunt inst ?s1))"
    and "lastTauntIndex (showTaunt inst env s) = lastTauntIndex (snd (getNextTaunt inst ?s1))"
    using True by (simp_all add: showTaunt_def Let_def case_prod_beta)
  ultimately show ?thesis by (simp add: queueInv_def)
qed

lemma queue_escapeJump [simp]:
  "tauntQueue (escapeJump inst env mx my s) = tauntQueue s"
  "lastTauntIndex (escapeJump inst env mx my s) = lastTauntIndex s"
  by (simp_all add: escapeJump_def Let_def case_prod_beta split: option.splits)

lemma queueInv_escapeFrom:
  assumes "1 < length (taunts (opts inst))" and "queueInv s"
  shows "queueInv (escapeFrom inst env mx my s)"
proof -
  let ?s6 = "escapeJump inst env mx my s"
  let ?s7 = "?s6\<lparr>randomCalls := Suc (randomCalls ?s6)\<rparr>"
  have 7: "queueInv ?s7" using assms(2) by (simp add: queueInv_def)
  then have "queueInv (showTaunt inst env ?s7)" using assms(1) queueInv_showTaunt by blast
  with 7 assms(2) show ?thesis
    by (simp add: escapeFrom_def Let_def)
qed

lemma queueInv_handleMouseMove:
  assumes "1 < length (taunts (opts inst))" and "queueInv s"
  shows "queueInv (handleMouseMove inst env mx my s)"
proof -
  have "queueInv (escapeFrom inst env mx my s)" using assms by (rule queueInv_escapeFrom)
  then show ?thesis
    by (simp add: handleMouseMove_def Let_def case_prod_beta queueInv_def)
qed

lemma queueInv_step:
  assumes "1 < length (taunts (opts inst))" and "queueInv s"
  shows "queueInv (step inst s ev)"
proof (cases ev)
  case (MouseMove env mx my)
  then show ?thesis using assms queueInv_handleMouseMove by simp
next
  case MouseLeave
  then show ?thesis using assms(2) by (simp add: queueInv_def)
next
  case Click
  then show ?thesis using assms(2) by (simp add: queueInv_def)
next
  case (AnimationFrame h env ts)
  then show ?thesis using assms(2) by (simp add: queueInv_def split: option.splits)
next
  case (Timeout h)
  then show ?thesis using assms(2) by (simp add: queueInv_def split: option.splits prod.splits)
next
  case (Elapse dt)
  then show ?thesis using assms(2) by (simp add: queueInv_def)
next
  case Destroy
  then show ?thesis using assms(2) by (simp add: queueInv_def)
qed

lemma queueInv_run:
  assumes "1 < length (taunts (opts inst))" and "queueInv s"
  shows "queueInv (run inst s evs)"
  using assms(2) unfolding run_def
  by (induction evs arbitrary: s) (simp_all add: queueInv_step[OF assms(1)])

lemma queueInv_makeEvasive:
  "queueInv (makeEvasive os rnd content l t w h)"
proof -
  let ?s = "makeEvasive os rnd content l t w h"
  have m: "mset (tauntQueue ?s) = mset (keys (length (taunts os)))"
    by (simp add: makeEvasive_def Let_def shuffle_queue)
  then have "distinct (tauntQueue ?s)" using distinct_keys by (metis mset_eq_imp_distinct_iff)
  moreover have "set (tauntQueue ?s) = set (keys (length (taunts os)))"
    using m by (rule mset_eq_setD)
  moreover have "lastTauntIndex ?s = Some (- 1)"
    by (simp add: makeEvasive_def Let_def shuffle_last)
  ultimately show ?thesis by (auto simp add: queueInv_def set_keys)
qed

lemma draws_distinct_adj:
  assumes "1 < length (taunts (opts inst))" and "queueInv s"
  shows "distinct_adj (lastTauntIndex s # draws inst ks s)"
  using assms(2)
proof (induction ks arbitrary: s)
  case Nil
  then show ?case by simp
next
  case (Cons k ks)
  let ?t = "s\<lparr>randomCalls := randomCalls s + k\<rparr>"
  have "queueInv ?t" using Cons.prems by (simp add: queueInv_def)
  from getNextTaunt_step[OF assms(1) this] Cons.IH[of "snd (getNextTaunt inst ?t)"]
  show ?case by (simp add: Let_def)
qed

lemma length_draws [simp]: "length (draws inst ks s) = length ks"
  by (induction ks arbitrary: s) (simp_all add: Let_def)

lemma draws_append:
  "draws inst (ks1 @ ks2) s = draws inst ks1 s @ draws inst ks2 (afterDraws inst ks1 s)"
  by (induction ks1 arbitrary: s) (simp_all add: Let_def)

lemma draw_one:
  assumes "tauntQueue (refillQueue inst s) \<noteq> []"
  shows "mset (lastTauntIndex (snd (getNextTaunt inst s)) # map Some (tauntQueue (snd (getNextTaunt inst s))))
         = mset (map Some (tauntQueue (refillQueue inst s)))"
proof -
  let ?s1 = "refillQueue inst s"
  let ?q2 = "avoidRepeat (lastTauntIndex ?s1) (tauntQueue ?s1)"
  have "mset ?q2 = mset (tauntQueue ?s1)" by (rule mset_avoidRepeat)
  moreover from this assms have "?q2 \<noteq> []" by (metis mset_zero_iff)
  then have "mset (head ?q2 # map Some (tl ?q2)) = mset (map Some ?q2)"
    by (cases ?q2) (simp_all add: head_def)
  ultimately show ?thesis
    by (simp add: getNextTaunt_def Let_def)
qed

lemma drain_queue:
  assumes "length ks = length (tauntQueue s)"
  shows "mset (draws inst ks s) = mset (map Some (tauntQueue s)) \<and> tauntQueue (afterDraws inst ks s) = []"
  using assms
proof (induction ks arbitrary: s)
  case Nil
  then show ?case by simp
next
  case (Cons k ks)
  let ?t = "s\<lparr>randomCalls := randomCalls s + k\<rparr>"
  let ?s' = "snd (getNextTaunt inst ?t)"
  from Cons.prems have ne: "tauntQueue ?t \<noteq> []" by auto
  then have r: "refillQueue inst ?t = ?t" by (rule refill_nonempty)
  from draw_one[of inst ?t] ne r
  have one: "mset (lastTauntIndex ?s' # map Some (tauntQueue ?s')) = mset (map Some (tauntQueue s))"
    by simp
  then have "length (lastTauntIndex ?s' # map Some (tauntQueue ?s')) = length (map Some (tauntQueue s))"
    by (rule mset_eq_length)
  with Cons.prems have "length ks = length (tauntQueue ?s')" by simp
  from Cons.IH[OF this] one show ?case by (simp add: Let_def)
qed

lemma fresh_block:
  assumes n: "0 < length (taunts (opts inst))" and f: "freshQueue inst s"
    and l: "length ks = length (taunts (opts inst))"
  shows "mset (draws inst ks s) = mset (map Some (keys (length (taunts (opts inst)))))
         \<and> tauntQueue (afterDraws inst ks s) = []"
proof (cases "tauntQueue s = []")
  case False
  with f have m: "mset (tauntQueue s) = mset (keys (length (taunts (opts inst))))"
    by (simp add: freshQueue_def)
  then have "length (tauntQueue s) = length (taunts (opts inst))"
    by (metis length_keys size_mset)
  with l drain_queue[of ks s inst] m show ?thesis by (metis mset_map)
next
  case True
  from n l obtain k ks' where ks: "ks = k # ks'" by (cases ks) auto
  let ?t = "s\<lparr>randomCalls := randomCalls s + k\<rparr>"
  let ?s' = "snd (getNextTaunt inst ?t)"
  from True have "tauntQueue ?t = []" by simp
  then have m: "mset (tauntQueue (refillQueue inst ?t)) = mset (keys (length (taunts (opts inst))))"
    by (rule refill_empty)
  then have len: "length (tauntQueue (refillQueue inst ?t)) = length (taunts (opts inst))"
    by (metis length_keys size_mset)
  with n have "tauntQueue (refillQueue inst ?t) \<noteq> []" by auto
  from draw_one[OF this]
  have one: "mset (lastTauntIndex ?s' # map Some (tauntQueue ?s'))
             = mset (map Some (tauntQueue (refillQueue inst ?t)))" .
  then have "length (lastTauntIndex ?s' # map Some (tauntQueue ?s'))
             = length (map Some (tauntQueue (refillQueue inst ?t)))"
    by (rule mset_eq_length)
  with len l ks have "length ks' = length (tauntQueue ?s')" by simp
  from drain_queue[OF this, of inst] one m ks show ?thesis
    by (simp add: Let_def)
qed

lemma blocks_permutation:
  assumes n: "0 < length (taunts (opts inst))"
  shows "freshQueue inst s \<Longrightarrow> length ks = Suc k * length (taunts (opts inst)) \<Longrightarrow>
         mset (take (length (taunts (opts inst))) (drop (k * length (taunts (opts inst))) (draws inst ks s)))
         = mset (map Some (keys (length (taunts (opts inst)))))"
proof (induction k arbitrary: s ks)
  case 0
  then show ?case using fresh_block[OF n, of s ks] by simp
next
  case (Suc k)
  let ?N = "length (taunts (opts inst))"
  let ?a = "take ?N ks" and ?b = "drop ?N ks"
  have la: "length ?a = ?N" using Suc.prems(2) by simp
  have lb: "length ?b = Suc k * ?N" using Suc.prems(2) by simp
  have ks: "ks = ?a @ ?b" by simp
  from fresh_block[OF n Suc.prems(1) la]
  have "freshQueue inst (afterDraws inst ?a s)" by (simp add: freshQueue_def)
  from Suc.IH[OF this lb]
  have "mset (take ?N (drop (k * ?N) (draws inst ?b (afterDraws inst ?a s))))
        = mset (map Some (keys ?N))" .
  moreover have "draws inst ks s = draws inst ?a s @ draws inst ?b (afterDraws inst ?a s)"
    using draws_append[of inst ?a ?b s] by simp
  ultimately show ?case using la by simp
qed

lemma fresh_makeEvasive:
  "freshQueue (makeInstance os rnd content l t w h) (makeEvasive os rnd content l t w h)"
  by (simp add: freshQueue_def makeEvasive_def makeInstance_def Let_def shuffle_queue)


text \<open>
  C8: when there is more than one taunt, two consecutive draws of \<^verbatim>\<open>getNextTaunt\<close> never
  show the same index. In every state the controller reaches from attach by any events, the
  index shown last followed by the indices of any further draws has no two equal neighbours.
\<close>

theorem taunt_never_twice_in_a_row:
  assumes "1 < length (taunts os)" and "randomInRange rnd"
  shows "distinct_adj
           (lastTauntIndex (run (makeInstance os rnd content l t w h)
                              (makeEvasive os rnd content l t w h) evs)
            # draws (makeInstance os rnd content l t w h) ks
                (run (makeInstance os rnd content l t w h)
                   (makeEvasive os rnd content l t w h) evs))"
proof -
  let ?inst = "makeInstance os rnd content l t w h"
  have n: "1 < length (taunts (opts ?inst))" using assms(1) by (simp add: makeInstance_def)
  have "queueInv (run ?inst (makeEvasive os rnd content l t w h) evs)"
    using n queueInv_makeEvasive by (rule queueInv_run)
  with n show ?thesis by (rule draws_distinct_adj)
qed

theorem taunt_never_twice_in_a_row_witness:
  "1 < length (taunts defaultOpts) \<and> randomInRange exampleRandom \<and>
   distinct_adj
     (lastTauntIndex (run (exampleInstance defaultOpts) (exampleCtrl defaultOpts) [Click])
      # draws (exampleInstance defaultOpts) [1, 1, 1]
          (run (exampleInstance defaultOpts) (exampleCtrl defaultOpts) [Click]))"
proof -
  have 1: "1 < length (taunts defaultOpts)"
    by (simp add: defaultOpts_def DEFAULT_TAUNTS_def)
  have 2: "randomInRange exampleRandom"
    by (simp add: randomInRange_def exampleRandom_def)
  show ?thesis
    unfolding exampleInstance_def exampleCtrl_def
    using 1 2 taunt_never_twice_in_a_row[OF 1 2] by blast
qed

text \<open>
  C9 as stated fails: the queue is reshuffled when it runs empty, and only an immediate
  repeat is prevented. With three taunts and the example random values the first four draws
  after attach show 0, 1, 2, 1: the window of three draws that starts at the second draw
  holds index 1 twice.
\<close>

theorem window_of_n_draws_counterexample:
  "\<not> distinct (take 3 (drop 1
       (draws (exampleInstance threeTaunts) [1, 1, 1, 1, 1, 1] (exampleCtrl threeTaunts))))"
  by code_simp

text \<open>
  C9 as amended: the draws are consumed in passes of \<open>N\<close> over a freshly shuffled queue.
  For every \<open>k\<close>, the draws \<open>k * N + 1\<close> to \<open>(k + 1) * N\<close> after attach show every index
  \<open>0, ..., N - 1\<close> exactly once.
\<close>

theorem each_pass_shows_every_taunt_once:
  assumes "1 < length (taunts os)" and "randomInRange rnd"
    and "length ks = Suc k * length (taunts os)"
  shows "mset (take (length (taunts os)) (drop (k * length (taunts os))
                 (draws (makeInstance os rnd content l t w h) ks
                    (makeEvasive os rnd content l t w h))))
         = mset (map Some (keys (length (taunts os))))"
proof -
  let ?inst = "makeInstance os rnd content l t w h"
  have o: "opts ?inst = os" by (simp add: makeInstance_def)
  have n: "0 < length (taunts (opts ?inst))" using assms(1) unfolding o by linarith
  have "length ks = Suc k * length (taunts (opts ?inst))" using assms(3) unfolding o .
  from blocks_permutation[OF n fresh_makeEvasive this]
  show ?thesis unfolding o .
qed

theorem each_pass_shows_every_taunt_once_witness:
  "1 < length (taunts threeTaunts) \<and> randomInRange exampleRandom \<and>
   length [1, 1, 1, 1, 1, 1 :: nat] = Suc 1 * length (taunts threeTaunts) \<and>
   mset (take (length (taunts threeTaunts)) (drop (1 * length (taunts threeTaunts))
          (draws (exampleInstance threeTaunts) [1, 1, 1, 1, 1, 1] (exampleCtrl threeTaunts))))
   = mset (map Some (keys (length (taunts threeTaunts))))"
proof -
  have 1: "1 < length (taunts threeTaunts)"
    by (simp add: threeTaunts_def)
  have 2: "randomInRange exampleRandom"
    by (simp add: randomInRange_def exampleRandom_def)
  have 3: "length [1, 1, 1, 1, 1, 1 :: nat] = Suc 1 * length (taunts threeTaunts)"
    by (simp add: threeTaunts_def)
  show ?thesis
    unfolding exampleInstance_def exampleCtrl_def
    using 1 2 3 each_pass_shows_every_taunt_once[OF 1 2 3] by blast
qed

section \<open>The spring return ends on the anchor\<close>

lemma axisEnergy_step:
  "axisEnergy (x + (v - x * 120 / 1000) * (1 - 28 / 100)) ((v - x * 120 / 1000) * (1 - 28 / 100))
   = (72 / 100) * axisEnergy x v"
  by (simp add: axisEnergy_def power2_eq_square algebra_simps)

lemma axisEnergy_pos_bound: "700 * x\<^sup>2 \<le> axisEnergy x v"
proof -
  have "0 \<le> (1936 * x + 14400 * v)\<^sup>2" by simp
  then have "0 \<le> 3748096 * (x * x) + 55756800 * (x * v) + 207360000 * (v * v)"
    by (simp add: power2_eq_square algebra_simps)
  moreover have "0 \<le> x * x" by simp
  ultimately have "700 * (x * x) \<le> 864 * (x * x) + 1936 * (x * v) + 7200 * (v * v)"
    by linarith
  then show ?thesis
    by (simp add: axisEnergy_def power2_eq_square algebra_simps)
qed

lemma axisEnergy_vel_bound: "6000 * v\<^sup>2 \<le> axisEnergy x v"
proof -
  have "0 \<le> (1728 * x + 1936 * v)\<^sup>2" by simp
  then have "0 \<le> 2985984 * (x * x) + 6690816 * (x * v) + 3748096 * (v * v)"
    by (simp add: power2_eq_square algebra_simps)
  moreover have "0 \<le> v * v" by simp
  ultimately have "6000 * (v * v) \<le> 864 * (x * x) + 1936 * (x * v) + 7200 * (v * v)"
    by linarith
  then show ?thesis
    by (simp add: axisEnergy_def power2_eq_square algebra_simps)
qed

lemma springEnergy_dist: "700 * ((currentX st - targetX st)\<^sup>2 + (currentY st - targetY st)\<^sup>2) \<le> springEnergy st"
  using axisEnergy_pos_bound[where x = "currentX st - targetX st" and v = "velocityX st"]
        axisEnergy_pos_bound[where x = "currentY st - targetY st" and v = "velocityY st"]
  by (simp add: springEnergy_def)

lemma springEnergy_speed: "6000 * ((velocityX st)\<^sup>2 + (velocityY st)\<^sup>2) \<le> springEnergy st"
  using axisEnergy_vel_bound[where x = "currentX st - targetX st" and v = "velocityX st"]
        axisEnergy_vel_bound[where x = "currentY st - targetY st" and v = "velocityY st"]
  by (simp add: springEnergy_def)

lemma springEnergy_springMove: "springEnergy (springMove st) = (72 / 100) * springEnergy st"
proof -
  have x: "currentX (springMove st) - targetX (springMove st)
        = (currentX st - targetX st) + (velocityX st - (currentX st - targetX st) * 120 / 1000) * (1 - 28 / 100)"
    by (simp add: springMove_def Let_def SPRING_TENSION_def SPRING_FRICTION_def field_simps)
  have vx: "velocityX (springMove st)
        = (velocityX st - (currentX st - targetX st) * 120 / 1000) * (1 - 28 / 100)"
    by (simp add: springMove_def Let_def SPRING_TENSION_def SPRING_FRICTION_def field_simps)
  have y: "currentY (springMove st) - targetY (springMove st)
        = (currentY st - targetY st) + (velocityY st - (currentY st - targetY st) * 120 / 1000) * (1 - 28 / 100)"
    by (simp add: springMove_def Let_def SPRING_TENSION_def SPRING_FRICTION_def field_simps)
  have vy: "velocityY (springMove st)
        = (velocityY st - (currentY st - targetY st) * 120 / 1000) * (1 - 28 / 100)"
    by (simp add: springMove_def Let_def SPRING_TENSION_def SPRING_FRICTION_def field_simps)
  show ?thesis
    unfolding springEnergy_def x vx y vy axisEnergy_step by (simp only: distrib_left)
qed


lemma sqrt_less_bound: "0 \<le> b \<Longrightarrow> a < b\<^sup>2 \<Longrightarrow> sqrt a < b"
  using real_sqrt_less_iff[of a "b\<^sup>2"] by simp

lemma springMove_keeps [simp]:
  "isReturning (springMove st) = isReturning st"
  "targetX (springMove st) = targetX st"
  "targetY (springMove st) = targetY st"
  by (simp_all add: springMove_def Let_def)

lemma low_energy_settled:
  assumes "springEnergy st < 83"
  shows "springSettled st (springMove st)"
proof -
  have d: "(targetX st - currentX st)\<^sup>2 + (targetY st - currentY st)\<^sup>2
           = (currentX st - targetX st)\<^sup>2 + (currentY st - targetY st)\<^sup>2"
    by (simp add: power2_commute)
  from springEnergy_dist[of st] assms
  have "(targetX st - currentX st)\<^sup>2 + (targetY st - currentY st)\<^sup>2 < (5 / 10)\<^sup>2"
    unfolding d by (simp add: power2_eq_square)
  then have 1: "sqrt ((targetX st - currentX st)\<^sup>2 + (targetY st - currentY st)\<^sup>2) < 5 / 10"
    by (intro sqrt_less_bound) simp_all
  from springEnergy_speed[of "springMove st"] springEnergy_springMove[of st] assms
  have "(velocityX (springMove st))\<^sup>2 + (velocityY (springMove st))\<^sup>2 < (1 / 10)\<^sup>2"
    by (simp add: power2_eq_square)
  then have 2: "sqrt ((velocityX (springMove st))\<^sup>2 + (velocityY (springMove st))\<^sup>2) < 1 / 10"
    by (intro sqrt_less_bound) simp_all
  from 1 2 show ?thesis by (simp add: springSettled_def)
qed

lemma state_cancelAnimationFrame [simp]: "state (cancelAnimationFrame h s) = state s"
  by (simp add: cancelAnimationFrame_def)

lemma springAnimate_settled:
  assumes "isReturning (state s)" and "springSettled (state s) (springMove (state s))"
  shows "animationFrame (springAnimate inst s) = None"
    and "currentX (state (springAnimate inst s)) = targetX (state s)"
    and "currentY (state (springAnimate inst s)) = targetY (state s)"
    and "velocityX (state (springAnimate inst s)) = 0"
    and "velocityY (state (springAnimate inst s)) = 0"
    and "\<not> isReturning (state (springAnimate inst s))"
  using assms by (simp_all add: springAnimate_def Let_def updatePosition_def)

lemma springAnimate_continues:
  assumes "isReturning (state s)" and "\<not> springSettled (state s) (springMove (state s))"
  shows "animationFrame (springAnimate inst s) = Some (nextFrame s)"
    and "frames (springAnimate inst s) = frames s @ [(nextFrame s, SpringAnimate)]"
    and "nextFrame (springAnimate inst s) = Suc (nextFrame s)"
    and "state (springAnimate inst s) = springMove (state s)"
  using assms
  by (simp_all add: springAnimate_def Let_def updatePosition_def requestAnimationFrame_def)

lemma map_of_fresh:
  assumes "\<forall>f \<in> set fs. fst f < (n::nat)"
  shows "map_of (filter (\<lambda>f. fst f \<noteq> h) fs @ [(n, cb)]) n = Some cb"
proof -
  have "n \<notin> fst ` set (filter (\<lambda>f. fst f \<noteq> h) fs)" using assms by force
  then have "map_of (filter (\<lambda>f. fst f \<noteq> h) fs) n = None" by (simp add: map_of_eq_None_iff)
  then show ?thesis by (simp add: map_add_def)
qed

lemma spring_loop_terminates:
  assumes "springEnergy (state s) * (72 / 100) ^ n < 83"
    and "isReturning (state s)" and "springHandleOk s" and "animationFrame s = Some h"
  shows "\<exists>m \<le> Suc n. \<exists>s'. springLoop inst m s = Some s'
           \<and> currentX (state s') = targetX (state s) \<and> currentY (state s') = targetY (state s)
           \<and> velocityX (state s') = 0 \<and> velocityY (state s') = 0
           \<and> \<not> isReturning (state s') \<and> animationFrame s' = None"
  using assms
proof (induction n arbitrary: s h)
  case 0
  let ?t = "cancelAnimationFrame h s"
  from 0 have p: "map_of (frames s) h = Some SpringAnimate" by (simp add: springHandleOk_def)
  from 0 have "springSettled (state ?t) (springMove (state ?t))"
    by (simp add: low_energy_settled)
  from springAnimate_settled[OF _ this, of inst] 0
  have "springLoop inst (Suc 0) s = Some (springAnimate inst ?t)
        \<and> currentX (state (springAnimate inst ?t)) = targetX (state s)
        \<and> currentY (state (springAnimate inst ?t)) = targetY (state s)
        \<and> velocityX (state (springAnimate inst ?t)) = 0
        \<and> velocityY (state (springAnimate inst ?t)) = 0
        \<and> \<not> isReturning (state (springAnimate inst ?t))
        \<and> animationFrame (springAnimate inst ?t) = None"
    using p by simp
  then show ?case by blast
next
  case (Suc n)
  let ?t = "cancelAnimationFrame h s"
  let ?s1 = "springAnimate inst ?t"
  from Suc.prems have p: "map_of (frames s) h = Some SpringAnimate" by (simp add: springHandleOk_def)
  have r: "isReturning (state ?t)" using Suc.prems by simp
  show ?case
  proof (cases "springSettled (state ?t) (springMove (state ?t))")
    case True
    from springAnimate_settled[OF r True, of inst]
    have "springLoop inst (Suc 0) s = Some ?s1
        \<and> currentX (state ?s1) = targetX (state s)
        \<and> currentY (state ?s1) = targetY (state s)
        \<and> velocityX (state ?s1) = 0
        \<and> velocityY (state ?s1) = 0
        \<and> \<not> isReturning (state ?s1)
        \<and> animationFrame ?s1 = None"
      using p Suc.prems(4) by simp
    moreover have "Suc 0 \<le> Suc (Suc n)" by simp
    ultimately show ?thesis by blast
  next
    case False
    note c = springAnimate_continues[OF r False, of inst]
    have e: "springEnergy (state ?s1) * (72 / 100) ^ n < 83"
      using Suc.prems(1) by (simp add: c(4) springEnergy_springMove mult.assoc)
    have r1: "isReturning (state ?s1)" using r by (simp add: c(4))
    have fr: "\<forall>f \<in> set (frames s). fst f < nextFrame s"
      using Suc.prems(3) by (simp add: springHandleOk_def)
    have nf: "nextFrame ?t = nextFrame s" and ft: "frames ?t = filter (\<lambda>f. fst f \<noteq> h) (frames s)"
      by (simp_all add: cancelAnimationFrame_def)
    have ok: "springHandleOk ?s1"
      unfolding springHandleOk_def c(1) c(2) c(3) nf ft
      using fr map_of_fresh[OF fr, of h SpringAnimate] by (auto intro: less_SucI)
    have a1: "animationFrame ?s1 = Some (nextFrame s)" using c(1) nf by simp
    from Suc.IH[OF e r1 ok a1] obtain m s' where m: "m \<le> Suc n"
      and l: "springLoop inst m ?s1 = Some s'"
      and f: "currentX (state s') = targetX (state ?s1)" "currentY (state s') = targetY (state ?s1)"
         "velocityX (state s') = 0" "velocityY (state s') = 0"
         "\<not> isReturning (state s')" "animationFrame s' = None"
      by blast
    have "springLoop inst (Suc m) s = Some s'" using l p Suc.prems(4) by simp
    moreover have "targetX (state ?s1) = targetX (state s)" "targetY (state ?s1) = targetY (state s)"
      by (simp_all add: c(4))
    ultimately show ?thesis using m f by (intro exI[of _ "Suc m"]) auto
  qed
qed

lemma energy_decays: "\<exists>n. (e::real) * (72 / 100) ^ n < 83"
proof (cases "e \<le> 0")
  case True
  then have "e * (72 / 100) ^ 0 < 83" by simp
  then show ?thesis by blast
next
  case False
  then have "0 < 83 / e" by simp
  from real_arch_pow_inv[OF this, of "72 / 100"] obtain n where "(72 / 100 :: real) ^ n < 83 / e"
    by auto
  with False have "e * (72 / 100) ^ n < 83" by (simp add: field_simps)
  then show ?thesis by blast
qed

lemma state_returnToCenter:
  "state (returnToCenter inst s) = (state s)\<lparr>targetX := 0, targetY := 0, isReturning := True\<rparr>"
  by (simp add: returnToCenter_def Let_def requestAnimationFrame_def)

lemma handle_returnToCenter:
  assumes "springHandleOk s"
  shows "springHandleOk (returnToCenter inst s)" and "\<exists>h. animationFrame (returnToCenter inst s) = Some h"
proof -
  have fr: "\<forall>f \<in> set (frames s). fst f < nextFrame s"
    using assms by (simp add: springHandleOk_def)
  have "map_of (frames s @ [(nextFrame s, SpringAnimate)]) (nextFrame s) = Some SpringAnimate"
    using map_of_fresh[OF fr, of "nextFrame s" SpringAnimate] fr
    by (simp add: filter_id_conv less_imp_neq)
  then show "springHandleOk (returnToCenter inst s)"
    using assms fr
    by (auto simp add: returnToCenter_def Let_def requestAnimationFrame_def springHandleOk_def
        intro: less_SucI)
  show "\<exists>h. animationFrame (returnToCenter inst s) = Some h"
    by (cases "animationFrame s") (simp_all add: returnToCenter_def Let_def requestAnimationFrame_def)
qed

text \<open>
  C7: started by \<^verbatim>\<open>returnToCenter\<close> from any offset and velocity, the spring loop stops
  after a bounded number of frames, with the position exactly on the anchor offset (0, 0) and
  zero velocity. The bound: the energy of the start state shrinks by the factor 0.72 per
  frame, and the loop has stopped at the latest one frame after the energy is below 83.
\<close>

theorem spring_return_reaches_anchor:
  assumes "springHandleOk s"
  shows "(\<exists>N. springEnergy (state (returnToCenter inst s)) * (72 / 100) ^ N < 83) \<and>
         (\<forall>N. springEnergy (state (returnToCenter inst s)) * (72 / 100) ^ N < 83 \<longrightarrow>
            (\<exists>n \<le> Suc N. \<exists>s'. springLoop inst n (returnToCenter inst s) = Some s'
               \<and> currentX (state s') = 0 \<and> currentY (state s') = 0
               \<and> velocityX (state s') = 0 \<and> velocityY (state s') = 0
               \<and> \<not> isReturning (state s') \<and> animationFrame s' = None))"
proof (intro conjI allI impI)
  show "\<exists>N. springEnergy (state (returnToCenter inst s)) * (72 / 100) ^ N < 83"
    by (rule energy_decays)
next
  fix N
  assume e: "springEnergy (state (returnToCenter inst s)) * (72 / 100) ^ N < 83"
  let ?r = "returnToCenter inst s"
  have r: "isReturning (state ?r)" and t: "targetX (state ?r) = 0" "targetY (state ?r) = 0"
    by (simp_all add: state_returnToCenter)
  from handle_returnToCenter[OF assms, of inst] obtain h where
    ok: "springHandleOk ?r" and h: "animationFrame ?r = Some h" by blast
  from spring_loop_terminates[OF e r ok h, of inst] t
  show "\<exists>n \<le> Suc N. \<exists>s'. springLoop inst n ?r = Some s'
               \<and> currentX (state s') = 0 \<and> currentY (state s') = 0
               \<and> velocityX (state s') = 0 \<and> velocityY (state s') = 0
               \<and> \<not> isReturning (state s') \<and> animationFrame s' = None"
    by simp
qed

lemma displaced_ok: "springHandleOk displaced"
  by (simp add: displaced_def springHandleOk_def)

lemma displaced_energy:
  "springEnergy (state (returnToCenter (exampleInstance defaultOpts) displaced)) * (72 / 100) ^ 17 < 83"
  by (simp add: state_returnToCenter displaced_def springEnergy_def axisEnergy_def initialState_def
      power_divide)

theorem spring_return_reaches_anchor_witness:
  "springHandleOk displaced \<and>
   springEnergy (state (returnToCenter (exampleInstance defaultOpts) displaced)) * (72 / 100) ^ 17 < 83 \<and>
   (\<exists>n \<le> 18. \<exists>s'. springLoop (exampleInstance defaultOpts) n
                       (returnToCenter (exampleInstance defaultOpts) displaced) = Some s'
               \<and> currentX (state s') = 0 \<and> currentY (state s') = 0
               \<and> velocityX (state s') = 0 \<and> velocityY (state s') = 0
               \<and> \<not> isReturning (state s') \<and> animationFrame s' = None)"
proof -
  have 18: "Suc 17 = 18" by simp
  from spring_return_reaches_anchor[OF displaced_ok, of "exampleInstance defaultOpts"]
  have "\<forall>N. springEnergy (state (returnToCenter (exampleInstance defaultOpts) displaced))
              * (72 / 100) ^ N < 83 \<longrightarrow>
            (\<exists>n \<le> Suc N. \<exists>s'. springLoop (exampleInstance defaultOpts) n
                       (returnToCenter (exampleInstance defaultOpts) displaced) = Some s'
               \<and> currentX (state s') = 0 \<and> currentY (state s') = 0
               \<and> velocityX (state s') = 0 \<and> velocityY (state s') = 0
               \<and> \<not> isReturning (state s') \<and> animationFrame s' = None)"
    by (rule conjunct2)
  from this[rule_format, OF displaced_energy] displaced_ok displaced_energy
  show ?thesis unfolding 18 by (intro conjI)
qed

section \<open>The horizontal step of a jump frame\<close>

lemma distance_alt: "distance x1 y1 x2 y2 = sqrt ((x2 - x1) * (x2 - x1) + (y2 - y1) * (y2 - y1))"
  by (simp add: distance_def power2_eq_square)

lemma jumpMove_far:
  assumes "1 < distance cx cy tx ty"
  shows "jumpMove cx cy tx ty =
           (cx + (tx - cx) * (max (distance cx cy tx ty * HORIZONTAL_LERP) (min 15 (distance cx cy tx ty))
                              / distance cx cy tx ty),
            cy + (ty - cy) * (max (distance cx cy tx ty * HORIZONTAL_LERP) (min 15 (distance cx cy tx ty))
                              / distance cx cy tx ty))"
  using assms unfolding distance_alt by (simp add: jumpMove_def Let_def)

lemma jumpMove_near:
  assumes "distance cx cy tx ty \<le> 1"
  shows "jumpMove cx cy tx ty = (tx, ty)"
  using assms unfolding distance_alt by (simp add: jumpMove_def Let_def)

lemma distance_scaled:
  assumes "0 \<le> r"
  shows "distance cx cy (cx + (tx - cx) * r) (cy + (ty - cy) * r) = r * distance cx cy tx ty"
proof -
  have "((tx - cx) * r)\<^sup>2 + ((ty - cy) * r)\<^sup>2 = r\<^sup>2 * ((tx - cx)\<^sup>2 + (ty - cy)\<^sup>2)"
    by (simp add: power2_eq_square algebra_simps)
  then show ?thesis using assms
    by (simp add: distance_def real_sqrt_mult)
qed

lemma jumpAnimate_position:
  "currentX (state (jumpAnimate inst env ts s)) =
     (if jumpLands (state s) ts then jumpTargetX (state s)
      else fst (jumpMove (currentX (state s)) (currentY (state s)) (jumpTargetX (state s)) (jumpTargetY (state s))))"
  "currentY (state (jumpAnimate inst env ts s)) =
     (if jumpLands (state s) ts then jumpTargetY (state s)
      else snd (jumpMove (currentX (state s)) (currentY (state s)) (jumpTargetX (state s)) (jumpTargetY (state s))))"
  by (simp_all add: jumpAnimate_def Let_def case_prod_beta jumpFall_def)

lemma jumpAnimate_handle:
  "jumpAnimFrame (jumpAnimate inst env ts s) = (if jumpLands (state s) ts then None else Some (nextFrame s))"
  by (simp add: jumpAnimate_def Let_def case_prod_beta)


lemma state_startJump:
  "state (startJump inst x y s) =
     (state s)\<lparr>jumpStartX := currentX (state s), jumpStartY := currentY (state s),
                jumpTargetX := x, jumpTargetY := y,
                z := 0, zVelocity := JUMP_VELOCITY, lastJumpTime := 0\<rparr>"
  by (simp add: startJump_def Let_def case_prod_beta)

lemma sqrt_100: "sqrt 100 = 10"
  using real_sqrt_abs[of 10] by simp

lemma state_shortJump:
  "currentX (state shortJump) = 0" "currentY (state shortJump) = 0"
  "jumpTargetX (state shortJump) = 10" "jumpTargetY (state shortJump) = 0"
  "z (state shortJump) = 0" "zVelocity (state shortJump) = 850" "lastJumpTime (state shortJump) = 0"
  "isJumping (state shortJump)"
  by (simp_all add: shortJump_def state_startJump initialState_def JUMP_VELOCITY_def)

lemma distance_shortJump: "distance 0 0 10 0 = 10"
  by (simp add: distance_def sqrt_100)

lemma shortJump_airborne: "\<not> jumpLands (state shortJump) 16"
  by (simp add: jumpLands_def jumpFall_def Let_def state_shortJump)

lemma jumpMove_shortJump: "jumpMove 0 0 10 0 = (10, 0)"
  using jumpMove_far[of 0 0 10 0] by (simp add: distance_shortJump HORIZONTAL_LERP_def)

lemma isJumping_jumpAnimate:
  "isJumping (state (jumpAnimate inst env ts s)) = (\<not> jumpLands (state s) ts \<and> isJumping (state s))"
  by (simp add: jumpAnimate_def Let_def case_prod_beta jumpFall_def)

text \<open>
  C6 as stated fails: the step is capped by the remaining distance. In a jump to a
  destination 10 pixels away the first frame (not a landing frame) moves the position by 10,
  onto the target, and not by \<open>max 15 (10 * 0.18) = 15\<close>.
\<close>

theorem jump_step_counterexample:
  "1 < distance (currentX (state shortJump)) (currentY (state shortJump))
         (jumpTargetX (state shortJump)) (jumpTargetY (state shortJump))
   \<and> isJumping (state shortJumpFrame)
   \<and> currentX (state shortJumpFrame) = 10 \<and> currentY (state shortJumpFrame) = 0
   \<and> distance (currentX (state shortJump)) (currentY (state shortJump))
        (currentX (state shortJumpFrame)) (currentY (state shortJumpFrame))
      \<noteq> max 15 (distance (currentX (state shortJump)) (currentY (state shortJump))
                   (jumpTargetX (state shortJump)) (jumpTargetY (state shortJump)) * HORIZONTAL_LERP)"
  by (simp add: shortJumpFrame_def jumpAnimate_position isJumping_jumpAnimate shortJump_airborne
      state_shortJump jumpMove_shortJump distance_shortJump HORIZONTAL_LERP_def)

text \<open>
  C6 as amended: on a frame of a jump that is not the landing frame, with \<open>d\<close> the distance
  from the position to the jump target: when \<open>d > 1\<close> the position moves straight toward the
  target by \<open>max (d * 0.18) (min 15 d)\<close>, which is \<open>max 15 (d * 0.18)\<close> when \<open>d \<ge> 15\<close> and
  \<open>d\<close> itself, arriving on the target, when \<open>1 < d < 15\<close>; when \<open>d \<le> 1\<close> the position snaps
  to the target. On the landing frame the position snaps to the target whatever \<open>d\<close> is.
\<close>

theorem jump_frame_moves_toward_target:
  fixes inst :: Instance and env :: Env and ts :: real and s :: Ctrl
  defines "cx \<equiv> currentX (state s)" and "cy \<equiv> currentY (state s)"
    and "tx \<equiv> jumpTargetX (state s)" and "ty \<equiv> jumpTargetY (state s)"
    and "nx \<equiv> currentX (state (jumpAnimate inst env ts s))"
    and "ny \<equiv> currentY (state (jumpAnimate inst env ts s))"
  shows "(\<not> jumpLands (state s) ts \<and> 1 < distance cx cy tx ty \<longrightarrow>
            nx = cx + (tx - cx) * (max (distance cx cy tx ty * HORIZONTAL_LERP) (min 15 (distance cx cy tx ty))
                                   / distance cx cy tx ty)
          \<and> ny = cy + (ty - cy) * (max (distance cx cy tx ty * HORIZONTAL_LERP) (min 15 (distance cx cy tx ty))
                                   / distance cx cy tx ty)
          \<and> distance cx cy nx ny = max (distance cx cy tx ty * HORIZONTAL_LERP) (min 15 (distance cx cy tx ty))
          \<and> (15 \<le> distance cx cy tx ty \<longrightarrow>
                distance cx cy nx ny = max 15 (distance cx cy tx ty * HORIZONTAL_LERP))
          \<and> (distance cx cy tx ty < 15 \<longrightarrow> nx = tx \<and> ny = ty))
       \<and> (\<not> jumpLands (state s) ts \<and> distance cx cy tx ty \<le> 1 \<longrightarrow> nx = tx \<and> ny = ty)
       \<and> (jumpLands (state s) ts \<longrightarrow> nx = tx \<and> ny = ty)"
proof (intro conjI impI)
  assume "jumpLands (state s) ts"
  then show "nx = tx" "ny = ty"
    by (simp_all add: nx_def ny_def tx_def ty_def jumpAnimate_position)
next
  assume a: "\<not> jumpLands (state s) ts \<and> distance cx cy tx ty \<le> 1"
  then have "jumpMove cx cy tx ty = (tx, ty)" by (simp add: jumpMove_near)
  with a show "nx = tx" "ny = ty"
    by (simp_all add: nx_def ny_def jumpAnimate_position cx_def cy_def tx_def ty_def)
next
  let ?d = "distance cx cy tx ty"
  let ?m = "max (?d * HORIZONTAL_LERP) (min 15 ?d)"
  assume a: "\<not> jumpLands (state s) ts \<and> 1 < ?d"
  then have "jumpMove cx cy tx ty = (cx + (tx - cx) * (?m / ?d), cy + (ty - cy) * (?m / ?d))"
    by (simp add: jumpMove_far)
  with a show x: "nx = cx + (tx - cx) * (?m / ?d)" and y: "ny = cy + (ty - cy) * (?m / ?d)"
    by (simp_all add: nx_def ny_def jumpAnimate_position cx_def cy_def tx_def ty_def)
  have "0 \<le> ?m / ?d" using a by (simp add: HORIZONTAL_LERP_def le_max_iff_disj)
  from distance_scaled[OF this, of cx cy tx ty] a
  show m: "distance cx cy nx ny = ?m" unfolding x y by simp
  show "distance cx cy nx ny = max 15 (?d * HORIZONTAL_LERP)" if "15 \<le> ?d"
    using that unfolding m by (simp add: max.commute)
  show "nx = tx" "ny = ty" if "?d < 15"
  proof -
    from that a have "?m = ?d" by (simp add: HORIZONTAL_LERP_def max_def)
    with a have "?m / ?d = 1" by simp
    then show "nx = tx" "ny = ty" unfolding x y by simp_all
  qed
qed


lemma state_zeroJump:
  "currentX (state zeroJump) = 0" "currentY (state zeroJump) = 0"
  "jumpTargetX (state zeroJump) = 0" "jumpTargetY (state zeroJump) = 0"
  "z (state zeroJump) = 0" "zVelocity (state zeroJump) = 850" "lastJumpTime (state zeroJump) = 0"
  by (simp_all add: zeroJump_def state_startJump initialState_def JUMP_VELOCITY_def)

lemma zeroJump_airborne: "\<not> jumpLands (state zeroJump) 16"
  by (simp add: jumpLands_def jumpFall_def Let_def state_zeroJump)

lemma state_fallingJump:
  "currentX (state fallingJump) = 0" "currentY (state fallingJump) = 0"
  "jumpTargetX (state fallingJump) = 10" "jumpTargetY (state fallingJump) = 0"
  "z (state fallingJump) = 1" "zVelocity (state fallingJump) = - 800"
  "lastJumpTime (state fallingJump) = 500"
  by (simp_all add: fallingJump_def state_shortJump)

lemma fallingJump_lands: "jumpLands (state fallingJump) 516"
  by (simp add: jumpLands_def jumpFall_def Let_def state_fallingJump GRAVITY_def)

theorem jump_frame_moves_toward_target_witness:
  "(\<not> jumpLands (state shortJump) 16
    \<and> 1 < distance (currentX (state shortJump)) (currentY (state shortJump))
              (jumpTargetX (state shortJump)) (jumpTargetY (state shortJump))
    \<and> distance (currentX (state shortJump)) (currentY (state shortJump))
              (jumpTargetX (state shortJump)) (jumpTargetY (state shortJump)) < 15
    \<and> currentX (state (jumpAnimate (exampleInstance defaultOpts) exampleEnv 16 shortJump)) = 10
    \<and> currentY (state (jumpAnimate (exampleInstance defaultOpts) exampleEnv 16 shortJump)) = 0)
   \<and> (\<not> jumpLands (state zeroJump) 16
    \<and> distance (currentX (state zeroJump)) (currentY (state zeroJump))
          (jumpTargetX (state zeroJump)) (jumpTargetY (state zeroJump)) \<le> 1
    \<and> currentX (state (jumpAnimate (exampleInstance defaultOpts) exampleEnv 16 zeroJump)) = 0
    \<and> currentY (state (jumpAnimate (exampleInstance defaultOpts) exampleEnv 16 zeroJump)) = 0)
   \<and> (jumpLands (state fallingJump) 516
    \<and> currentX (state (jumpAnimate (exampleInstance defaultOpts) exampleEnv 516 fallingJump)) = 10
    \<and> currentY (state (jumpAnimate (exampleInstance defaultOpts) exampleEnv 516 fallingJump)) = 0)"
proof -
  have a: "1 < distance (currentX (state shortJump)) (currentY (state shortJump))
              (jumpTargetX (state shortJump)) (jumpTargetY (state shortJump))"
    and a': "distance (currentX (state shortJump)) (currentY (state shortJump))
              (jumpTargetX (state shortJump)) (jumpTargetY (state shortJump)) < 15"
    by (simp_all add: state_shortJump distance_shortJump)
  have b: "distance (currentX (state zeroJump)) (currentY (state zeroJump))
          (jumpTargetX (state zeroJump)) (jumpTargetY (state zeroJump)) \<le> 1"
    by (simp add: state_zeroJump distance_def)
  from jump_frame_moves_toward_target[of shortJump 16 "exampleInstance defaultOpts" exampleEnv]
    shortJump_airborne a a'
  have 1: "currentX (state (jumpAnimate (exampleInstance defaultOpts) exampleEnv 16 shortJump)) = 10
    \<and> currentY (state (jumpAnimate (exampleInstance defaultOpts) exampleEnv 16 shortJump)) = 0"
    by (simp add: state_shortJump)
  from jump_frame_moves_toward_target[of zeroJump 16 "exampleInstance defaultOpts" exampleEnv]
    zeroJump_airborne b
  have 2: "currentX (state (jumpAnimate (exampleInstance defaultOpts) exampleEnv 16 zeroJump)) = 0
    \<and> currentY (state (jumpAnimate (exampleInstance defaultOpts) exampleEnv 16 zeroJump)) = 0"
    by (simp add: state_zeroJump)
  from jump_frame_moves_toward_target[of fallingJump 516 "exampleInstance defaultOpts" exampleEnv]
    fallingJump_lands
  have 3: "currentX (state (jumpAnimate (exampleInstance defaultOpts) exampleEnv 516 fallingJump)) = 10
    \<and> currentY (state (jumpAnimate (exampleInstance defaultOpts) exampleEnv 516 fallingJump)) = 0"
    by (simp add: state_fallingJump)
  from shortJump_airborne a a' 1 zeroJump_airborne b 2 fallingJump_lands 3
  show ?thesis by blast
qed

section \<open>Escape: trigger and destination\<close>

lemma distance_nonneg [simp]: "0 \<le> distance a b c d"
  by (simp add: distance_def)

lemma distance_zero_iff: "distance a b c d = 0 \<longleftrightarrow> c = a \<and> d = b"
  by (auto simp add: distance_def sum_power2_eq_zero_iff)

lemma distance_self [simp]: "distance a b a b = 0"
  by (simp add: distance_def)

lemma clamp_bounds: "mn \<le> mx \<Longrightarrow> mn \<le> clamp v mn mx \<and> clamp v mn mx \<le> mx"
  by (simp add: clamp_def)

lemma candidate_inEnvelope:
  assumes "0 \<le> fst envl" and "fst (snd envl) \<le> snd (snd envl)"
  shows "inEnvelope envl (candidate cx cy dx dy esc envl a)"
proof -
  obtain maxX minY maxY where e: "envl = (maxX, minY, maxY)" by (cases envl) auto
  with assms have "- maxX \<le> maxX" "minY \<le> maxY" by simp_all
  from clamp_bounds[OF this(1)] clamp_bounds[OF this(2)] show ?thesis
    by (simp add: inEnvelope_def candidate_def e Let_def abs_le_iff) (metis minus_le_iff)
qed

text \<open>The relative rounding error of a displacement.\<close>

lemma relErr_bounds: "- 1 < relErr r" "relErr r < 1" "0 < 1 + relErr r"
  using relErr[of r] by auto

lemma relErr_noRounding [simp]: "relErr noRounding = 0"
  by (rule noRounding.rep_eq)

lemma relErr_oneUlp: "relErr oneUlp = 1 / 2 ^ 52"
  by (rule oneUlp.rep_eq)

lemma computed_nonneg: "0 \<le> distance a b c d * (1 + relErr r)"
  using relErr_bounds(3)[of r] by (simp add: mult_nonneg_nonneg)

lemma computed_zero_iff: "distance a b c d * (1 + relErr r) \<le> 0 \<longleftrightarrow> c = a \<and> d = b"
proof
  assume le: "distance a b c d * (1 + relErr r) \<le> 0"
  have "distance a b c d = 0"
  proof (rule ccontr)
    assume "distance a b c d \<noteq> 0"
    with distance_nonneg[of a b c d] have "0 < distance a b c d" by linarith
    from mult_pos_pos[OF this relErr_bounds(3)[of r]] le show False by linarith
  qed
  then show "c = a \<and> d = b" by (simp add: distance_zero_iff)
next
  assume "c = a \<and> d = b"
  then show "distance a b c d * (1 + relErr r) \<le> 0" by simp
qed

text \<open>The selection loop, processed angle by angle.\<close>

lemma select_invariant:
  fixes cx cy dx dy esc :: real and envl :: "real \<times> real \<times> real" and rnd :: "real \<Rightarrow> roundoff"
  defines "cand \<equiv> candidate cx cy dx dy esc envl"
  defines "computed \<equiv> \<lambda>a. distance cx cy (fst (cand a)) (snd (cand a)) * (1 + relErr (rnd a))"
  defines "res \<equiv> \<lambda>as. foldl (tryAngle rnd cx cy dx dy esc envl) (cx, cy, 0) as"
  shows "(\<forall>a \<in> set as. computed a \<le> snd (snd (res as)))
       \<and> (res as = (cx, cy, 0)
          \<or> (\<exists>i < length as. res as = (fst (cand (as ! i)), snd (cand (as ! i)), computed (as ! i))
                \<and> (\<forall>j < i. computed (as ! j) < computed (as ! i))))"
proof (induction as rule: rev_induct)
  case Nil
  then show ?case by (simp add: res_def)
next
  case (snoc a as)
  let ?r = "res as"
  have step: "res (as @ [a]) = (if computed a > snd (snd ?r) then (fst (cand a), snd (cand a), computed a) else ?r)"
    by (simp add: res_def tryAngle_def Let_def case_prod_beta cand_def computed_def)
  from snoc have 2: "\<forall>b \<in> set as. computed b \<le> snd (snd ?r)" by blast
  from snoc have 3: "?r = (cx, cy, 0)
          \<or> (\<exists>i < length as. ?r = (fst (cand (as ! i)), snd (cand (as ! i)), computed (as ! i))
                \<and> (\<forall>j < i. computed (as ! j) < computed (as ! i)))" by blast
  show ?case
  proof (cases "computed a > snd (snd ?r)")
    case True
    then have r: "res (as @ [a]) = (fst (cand a), snd (cand a), computed a)" using step by simp
    have le: "\<forall>b \<in> set (as @ [a]). computed b \<le> computed a"
      using 2 True by fastforce
    have "\<forall>j < length as. computed ((as @ [a]) ! j) < computed a"
    proof (intro allI impI)
      fix j assume j: "j < length as"
      then have "as ! j \<in> set as" by simp
      with 2 have "computed (as ! j) \<le> snd (snd ?r)" by blast
      with True j show "computed ((as @ [a]) ! j) < computed a"
        by (simp add: nth_append)
    qed
    then have "length as < length (as @ [a])
        \<and> (fst (cand a), snd (cand a), computed a)
            = (fst (cand ((as @ [a]) ! length as)), snd (cand ((as @ [a]) ! length as)),
               computed ((as @ [a]) ! length as))
        \<and> (\<forall>j < length as. computed ((as @ [a]) ! j) < computed ((as @ [a]) ! length as))"
      by simp
    then have "\<exists>i < length (as @ [a]).
          (fst (cand a), snd (cand a), computed a)
            = (fst (cand ((as @ [a]) ! i)), snd (cand ((as @ [a]) ! i)), computed ((as @ [a]) ! i))
        \<and> (\<forall>j < i. computed ((as @ [a]) ! j) < computed ((as @ [a]) ! i))"
      by blast
    with le show ?thesis unfolding r by simp
  next
    case False
    then have r: "res (as @ [a]) = ?r" using step by simp
    from 2 False have le2: "\<forall>b \<in> set (as @ [a]). computed b \<le> snd (snd ?r)"
      by auto
    have alt3: "?r = (cx, cy, 0)
          \<or> (\<exists>i < length (as @ [a]).
                ?r = (fst (cand ((as @ [a]) ! i)), snd (cand ((as @ [a]) ! i)), computed ((as @ [a]) ! i))
                \<and> (\<forall>j < i. computed ((as @ [a]) ! j) < computed ((as @ [a]) ! i)))"
      using 3
    proof
      assume "?r = (cx, cy, 0)"
      then show ?thesis by blast
    next
      assume "\<exists>i < length as. ?r = (fst (cand (as ! i)), snd (cand (as ! i)), computed (as ! i))
                \<and> (\<forall>j < i. computed (as ! j) < computed (as ! i))"
      then obtain i where i: "i < length as"
        "?r = (fst (cand (as ! i)), snd (cand (as ! i)), computed (as ! i))"
        "\<forall>j < i. computed (as ! j) < computed (as ! i)" by blast
      then have "i < length (as @ [a])
          \<and> ?r = (fst (cand ((as @ [a]) ! i)), snd (cand ((as @ [a]) ! i)), computed ((as @ [a]) ! i))
          \<and> (\<forall>j < i. computed ((as @ [a]) ! j) < computed ((as @ [a]) ! i))"
        by (simp add: nth_append)
      then show ?thesis by blast
    qed
    from le2 alt3 show ?thesis unfolding r by blast
  qed
qed

lemma length_angles: "length angles = 10"
  by (simp add: angles_def)

lemma length_candidates: "length (candidates inst env mx my st) = 10"
  by (simp add: candidates_def length_angles)

text \<open>
  The destination is the first candidate whose displacement, as computed, is the largest.
\<close>

lemma chooseDestination_select:
  "\<exists>i < length angles.
      chooseDestination inst env mx my st = candidates inst env mx my st ! i
    \<and> (\<forall>j < length angles.
          computedDisplacement env st (angles ! j) (candidates inst env mx my st ! j)
          \<le> computedDisplacement env st (angles ! i) (candidates inst env mx my st ! i))
    \<and> (\<forall>j < i.
          computedDisplacement env st (angles ! j) (candidates inst env mx my st ! j)
          < computedDisplacement env st (angles ! i) (candidates inst env mx my st ! i))"
proof -
  define cx where "cx = currentX st"
  define cy where "cy = currentY st"
  define cand where "cand = candidate cx cy (fst (escapeDir env mx my)) (snd (escapeDir env mx my))
                              (escapeDistance (opts inst)) (envelope inst env)"
  define computed where "computed = (\<lambda>a. distance cx cy (fst (cand a)) (snd (cand a))
                                    * (1 + relErr (rounding env a)))"
  define res where "res = foldl (tryAngle (rounding env) cx cy (fst (escapeDir env mx my))
                              (snd (escapeDir env mx my)) (escapeDistance (opts inst))
                              (envelope inst env)) (cx, cy, 0) angles"
  define best where "best = chooseDestination inst env mx my st"
  have b: "best = (fst res, fst (snd res))"
    by (simp add: best_def res_def cx_def cy_def chooseDestination_def Let_def case_prod_beta)
  have cs: "\<And>j. j < length angles \<Longrightarrow> candidates inst env mx my st ! j = cand (angles ! j)"
    by (simp add: candidates_def cand_def cx_def cy_def)
  have cd: "\<And>a. computedDisplacement env st a (cand a) = computed a"
    by (simp add: computedDisplacement_def displacement_def computed_def cx_def cy_def)
  note inv = select_invariant[where rnd = "rounding env" and cx = cx and cy = cy
      and dx = "fst (escapeDir env mx my)" and dy = "snd (escapeDir env mx my)"
      and esc = "escapeDistance (opts inst)" and envl = "envelope inst env" and as = angles,
      folded cand_def res_def]
  from inv have le: "\<forall>a \<in> set angles. computed a \<le> snd (snd res)"
    unfolding computed_def by blast
  from inv have alt: "res = (cx, cy, 0)
       \<or> (\<exists>i < length angles. res = (fst (cand (angles ! i)), snd (cand (angles ! i)), computed (angles ! i))
             \<and> (\<forall>j < i. computed (angles ! j) < computed (angles ! i)))"
    unfolding computed_def by blast
  have sel: "\<exists>i < length angles. best = cand (angles ! i)
             \<and> (\<forall>j < length angles. computed (angles ! j) \<le> computed (angles ! i))
             \<and> (\<forall>j < i. computed (angles ! j) < computed (angles ! i))"
    using alt
  proof
    assume z: "res = (cx, cy, 0)"
    have all0: "\<forall>j < length angles. computed (angles ! j) \<le> 0"
    proof (intro allI impI)
      fix j assume "j < length angles"
      then have "angles ! j \<in> set angles" by simp
      with le z show "computed (angles ! j) \<le> 0" by auto
    qed
    then have "computed (angles ! 0) \<le> 0" by (simp add: length_angles)
    then have c0: "cand (angles ! 0) = (cx, cy)"
      unfolding computed_def computed_zero_iff by (simp add: prod_eq_iff)
    then have "computed (angles ! 0) = 0" by (simp add: computed_def)
    with all0 have "\<forall>j < length angles. computed (angles ! j) \<le> computed (angles ! 0)" by simp
    moreover have "best = cand (angles ! 0)" unfolding b z c0 by simp
    ultimately have "0 < length angles \<and> best = cand (angles ! 0)
             \<and> (\<forall>j < length angles. computed (angles ! j) \<le> computed (angles ! 0))
             \<and> (\<forall>j < 0. computed (angles ! j) < computed (angles ! 0))"
      by (simp add: length_angles)
    then show ?thesis by blast
  next
    assume "\<exists>i < length angles. res = (fst (cand (angles ! i)), snd (cand (angles ! i)), computed (angles ! i))
             \<and> (\<forall>j < i. computed (angles ! j) < computed (angles ! i))"
    then obtain i where i: "i < length angles"
      "res = (fst (cand (angles ! i)), snd (cand (angles ! i)), computed (angles ! i))"
      "\<forall>j < i. computed (angles ! j) < computed (angles ! i)" by blast
    have "\<forall>j < length angles. computed (angles ! j) \<le> computed (angles ! i)"
    proof (intro allI impI)
      fix j assume "j < length angles"
      then have "angles ! j \<in> set angles" by simp
      with le have "computed (angles ! j) \<le> snd (snd res)" by blast
      then show "computed (angles ! j) \<le> computed (angles ! i)" unfolding i(2) by simp
    qed
    moreover have "best = cand (angles ! i)" unfolding b i(2) by simp
    ultimately show ?thesis using i(1) i(3) by blast
  qed
  then obtain i where i: "i < length angles" "best = cand (angles ! i)"
    "\<forall>j < length angles. computed (angles ! j) \<le> computed (angles ! i)"
    "\<forall>j < i. computed (angles ! j) < computed (angles ! i)" by blast
  have 1: "chooseDestination inst env mx my st = candidates inst env mx my st ! i"
    using i(1,2) by (simp add: cs best_def)
  have 2: "\<forall>j < length angles.
          computedDisplacement env st (angles ! j) (candidates inst env mx my st ! j)
          \<le> computedDisplacement env st (angles ! i) (candidates inst env mx my st ! i)"
    using i(1,3) by (simp add: cs cd)
  have 3: "\<forall>j < i.
          computedDisplacement env st (angles ! j) (candidates inst env mx my st ! j)
          < computedDisplacement env st (angles ! i) (candidates inst env mx my st ! i)"
    using i(1,4) by (simp add: cs cd)
  from i(1) 1 2 3 show ?thesis by blast
qed

lemma chooseDestination_candidate:
  "chooseDestination inst env mx my st \<in> set (candidates inst env mx my st)"
proof -
  from chooseDestination_select[of inst env mx my st] obtain i where
    "i < length angles" "chooseDestination inst env mx my st = candidates inst env mx my st ! i"
    by blast
  then show ?thesis by (simp add: length_candidates length_angles)
qed

lemma chooseDestination_inEnvelope:
  assumes "0 \<le> fst (envelope inst env)" and "0 \<le> innerHeight env"
  shows "inEnvelope (envelope inst env) (chooseDestination inst env mx my st)"
proof -
  have "fst (snd (envelope inst env)) \<le> snd (snd (envelope inst env))"
    using assms(2) by (simp add: envelope_def)
  from candidate_inEnvelope[OF assms(1) this] chooseDestination_candidate[of inst env mx my st]
  show ?thesis by (auto simp add: candidates_def)
qed

text \<open>
  The displacement of the destination is the largest up to the rounding errors, and the
  largest when the arithmetic is exact; then it is the first of the largest.
\<close>

lemma chooseDestination_nearly_farthest:
  assumes "\<forall>a \<in> set angles. \<bar>relErr (rounding env a)\<bar> \<le> u"
    and "c \<in> set (candidates inst env mx my st)"
  shows "(1 - u) * displacement st c
           \<le> (1 + u) * displacement st (chooseDestination inst env mx my st)"
proof -
  from assms(2) obtain j where j: "j < length angles" "c = candidates inst env mx my st ! j"
    by (auto simp add: in_set_conv_nth length_candidates length_angles)
  from chooseDestination_select[of inst env mx my st] obtain i where i: "i < length angles"
    "chooseDestination inst env mx my st = candidates inst env mx my st ! i"
    "\<forall>j < length angles.
          computedDisplacement env st (angles ! j) (candidates inst env mx my st ! j)
          \<le> computedDisplacement env st (angles ! i) (candidates inst env mx my st ! i)"
    by blast
  let ?t = "chooseDestination inst env mx my st"
  from i(3) j(1) have le: "displacement st c * (1 + relErr (rounding env (angles ! j)))
      \<le> displacement st ?t * (1 + relErr (rounding env (angles ! i)))"
    unfolding computedDisplacement_def j(2) i(2) by blast
  have dj: "\<bar>relErr (rounding env (angles ! j))\<bar> \<le> u"
    and di: "\<bar>relErr (rounding env (angles ! i))\<bar> \<le> u"
    using assms(1) i(1) j(1) by simp_all
  have nn: "0 \<le> displacement st c" "0 \<le> displacement st ?t"
    by (simp_all add: displacement_def)
  have "displacement st c * (1 - u) \<le> displacement st c * (1 + relErr (rounding env (angles ! j)))"
    using dj nn(1) by (intro mult_left_mono) auto
  moreover have "displacement st ?t * (1 + relErr (rounding env (angles ! i)))
      \<le> displacement st ?t * (1 + u)"
    using di nn(2) by (intro mult_left_mono) auto
  ultimately have "displacement st c * (1 - u) \<le> displacement st ?t * (1 + u)"
    using le by linarith
  then show ?thesis by (simp add: mult.commute)
qed

lemma chooseDestination_exact:
  assumes "\<forall>a \<in> set angles. relErr (rounding env a) = 0"
  shows "\<exists>i < length angles.
      chooseDestination inst env mx my st = candidates inst env mx my st ! i
    \<and> (\<forall>j < length angles. displacement st (candidates inst env mx my st ! j)
          \<le> displacement st (chooseDestination inst env mx my st))
    \<and> (\<forall>j < i. displacement st (candidates inst env mx my st ! j)
          < displacement st (chooseDestination inst env mx my st))"
proof -
  have e: "\<And>j p. j < length angles \<Longrightarrow> computedDisplacement env st (angles ! j) p = displacement st p"
    using assms by (simp add: computedDisplacement_def)
  from chooseDestination_select[of inst env mx my st] obtain i where i: "i < length angles"
    "chooseDestination inst env mx my st = candidates inst env mx my st ! i"
    "\<forall>j < length angles.
          computedDisplacement env st (angles ! j) (candidates inst env mx my st ! j)
          \<le> computedDisplacement env st (angles ! i) (candidates inst env mx my st ! i)"
    "\<forall>j < i.
          computedDisplacement env st (angles ! j) (candidates inst env mx my st ! j)
          < computedDisplacement env st (angles ! i) (candidates inst env mx my st ! i)"
    by blast
  have 2: "\<forall>j < length angles. displacement st (candidates inst env mx my st ! j)
          \<le> displacement st (chooseDestination inst env mx my st)"
    using i(1,3) unfolding i(2) by (simp add: e)
  have 3: "\<forall>j < i. displacement st (candidates inst env mx my st ! j)
          < displacement st (chooseDestination inst env mx my st)"
  proof (intro allI impI)
    fix j assume ji: "j < i"
    with i(1) have jl: "j < length angles" by simp
    from i(4) ji have "computedDisplacement env st (angles ! j) (candidates inst env mx my st ! j)
          < computedDisplacement env st (angles ! i) (candidates inst env mx my st ! i)"
      by blast
    then show "displacement st (candidates inst env mx my st ! j)
          < displacement st (chooseDestination inst env mx my st)"
      unfolding i(2) e[OF jl] e[OF i(1)] .
  qed
  from i(1) i(2) 2 3 show ?thesis by blast
qed

text \<open>
  Off the centre the direction is a unit vector, rotating it keeps its length, and so every
  point that the clamp leaves alone is exactly \<open>escapeDistance\<close> away: which of them is
  computed as the farthest is a matter of rounding alone.
\<close>

lemma escapeDir_explicit:
  "escapeDir env mx my =
     ((centerX env - mx)
        / (if mx = centerX env \<and> my = centerY env then 1
           else sqrt ((centerX env - mx)\<^sup>2 + (centerY env - my)\<^sup>2)),
      (centerY env - my)
        / (if mx = centerX env \<and> my = centerY env then 1
           else sqrt ((centerX env - mx)\<^sup>2 + (centerY env - my)\<^sup>2)))"
proof -
  have "sqrt ((centerX env - mx) * (centerX env - mx) + (centerY env - my) * (centerY env - my)) = 0
          \<longleftrightarrow> mx = centerX env \<and> my = centerY env"
    unfolding power2_eq_square[symmetric] real_sqrt_eq_zero_cancel_iff sum_power2_eq_zero_iff
    by auto
  then show ?thesis
    by (simp add: escapeDir_def escapeLen_def Let_def power2_eq_square)
qed

lemma escapeDir_unit:
  assumes "mx \<noteq> centerX env \<or> my \<noteq> centerY env"
  shows "(fst (escapeDir env mx my))\<^sup>2 + (snd (escapeDir env mx my))\<^sup>2 = 1"
proof -
  define dx where "dx = centerX env - mx"
  define dy where "dy = centerY env - my"
  define l where "l = sqrt (dx\<^sup>2 + dy\<^sup>2)"
  from assms have "dx \<noteq> 0 \<or> dy \<noteq> 0" by (auto simp add: dx_def dy_def)
  then have pos: "0 < dx\<^sup>2 + dy\<^sup>2" by (simp add: sum_power2_gt_zero_iff)
  then have l2: "l\<^sup>2 = dx\<^sup>2 + dy\<^sup>2" by (simp add: l_def)
  have "escapeDir env mx my = (dx / l, dy / l)"
    unfolding escapeDir_explicit using assms by (auto simp add: dx_def dy_def l_def)
  then have "(fst (escapeDir env mx my))\<^sup>2 + (snd (escapeDir env mx my))\<^sup>2
      = (dx\<^sup>2 + dy\<^sup>2) / l\<^sup>2"
    by (simp add: power_divide add_divide_distrib)
  also have "\<dots> = 1" unfolding l2 by (rule divide_self) (use pos in linarith)
  finally show ?thesis .
qed

lemma rotation_norm:
  fixes dx dy a :: real
  shows "(dx * cos a - dy * sin a)\<^sup>2 + (dx * sin a + dy * cos a)\<^sup>2 = dx\<^sup>2 + dy\<^sup>2"
proof -
  have "(dx * c - dy * s)\<^sup>2 + (dx * s + dy * c)\<^sup>2 = (dx\<^sup>2 + dy\<^sup>2) * (s\<^sup>2 + c\<^sup>2)"
    for s c :: real
    by (simp add: power2_eq_square algebra_simps)
  from this[of "cos a" "sin a"] show ?thesis by simp
qed

lemma displacement_unclamped:
  assumes "mx \<noteq> centerX env \<or> my \<noteq> centerY env"
  shows "displacement st (unclamped inst env mx my st a) = \<bar>escapeDistance (opts inst)\<bar>"
proof -
  define dx where "dx = fst (escapeDir env mx my)"
  define dy where "dy = snd (escapeDir env mx my)"
  define e where "e = escapeDistance (opts inst)"
  have u: "dx\<^sup>2 + dy\<^sup>2 = 1" unfolding dx_def dy_def using assms by (rule escapeDir_unit)
  have g: "(p * e)\<^sup>2 + (q * e)\<^sup>2 = (p\<^sup>2 + q\<^sup>2) * e\<^sup>2" for p q :: real
    by (simp add: power_mult_distrib distrib_right)
  have "displacement st (unclamped inst env mx my st a)
      = sqrt (((dx * cos a - dy * sin a) * e)\<^sup>2 + ((dx * sin a + dy * cos a) * e)\<^sup>2)"
    by (simp add: displacement_def unclamped_def distance_def case_prod_beta dx_def dy_def e_def)
  also have "((dx * cos a - dy * sin a) * e)\<^sup>2 + ((dx * sin a + dy * cos a) * e)\<^sup>2
      = ((dx * cos a - dy * sin a)\<^sup>2 + (dx * sin a + dy * cos a)\<^sup>2) * e\<^sup>2"
    by (rule g)
  also have "\<dots> = e\<^sup>2" unfolding rotation_norm u by simp
  finally show ?thesis by (simp add: e_def)
qed

lemma clamp_inside: "mn \<le> v \<Longrightarrow> v \<le> mx \<Longrightarrow> clamp v mn mx = v"
  by (simp add: clamp_def)

lemma candidate_unclamped:
  assumes "inEnvelope (envelope inst env) (unclamped inst env mx my st a)"
  shows "candidate (currentX st) (currentY st) (fst (escapeDir env mx my)) (snd (escapeDir env mx my))
           (escapeDistance (opts inst)) (envelope inst env) a
         = unclamped inst env mx my st a"
proof -
  obtain maxX minY maxY where e: "envelope inst env = (maxX, minY, maxY)"
    by (cases "envelope inst env") auto
  obtain x y where p: "unclamped inst env mx my st a = (x, y)"
    by (cases "unclamped inst env mx my st a") auto
  from assms have "- maxX \<le> x" "x \<le> maxX" "minY \<le> y" "y \<le> maxY"
    unfolding e p by (auto simp add: inEnvelope_def abs_le_iff)
  then have "clamp x (- maxX) maxX = x" "clamp y minY maxY = y"
    by (simp_all add: clamp_inside)
  moreover have "candidate (currentX st) (currentY st) (fst (escapeDir env mx my))
           (snd (escapeDir env mx my)) (escapeDistance (opts inst)) (maxX, minY, maxY) a
         = (clamp x (- maxX) maxX, clamp y minY maxY)"
    using p by (simp add: candidate_def unclamped_def case_prod_beta Let_def)
  ultimately show ?thesis unfolding e p by simp
qed

lemma unclamped_candidates_tie:
  assumes "mx \<noteq> centerX env \<or> my \<noteq> centerY env" and "j < length angles"
    and "inEnvelope (envelope inst env) (unclamped inst env mx my st (angles ! j))"
  shows "candidates inst env mx my st ! j = unclamped inst env mx my st (angles ! j)
       \<and> displacement st (candidates inst env mx my st ! j) = \<bar>escapeDistance (opts inst)\<bar>"
proof -
  have "candidates inst env mx my st ! j = unclamped inst env mx my st (angles ! j)"
    using assms(2) candidate_unclamped[OF assms(3)] by (simp add: candidates_def)
  then show ?thesis using displacement_unclamped[OF assms(1)] by simp
qed

lemma chooseDestination_flags [simp]:
  "chooseDestination inst env mx my (st\<lparr>isReturning := a\<rparr>) = chooseDestination inst env mx my st"
  "chooseDestination inst env mx my (st\<lparr>isJumping := b\<rparr>) = chooseDestination inst env mx my st"
  by (simp_all add: chooseDestination_def)

lemma frames_startJump:
  "jumpAnimFrame (startJump inst x y s) = Some (nextFrame s)"
  "frames (startJump inst x y s) =
     (case jumpAnimFrame s of None \<Rightarrow> frames s
      | Some h \<Rightarrow> filter (\<lambda>f. fst f \<noteq> h) (frames s)) @ [(nextFrame s, JumpAnimate)]"
  "nextFrame (startJump inst x y s) = Suc (nextFrame s)"
  by (simp_all add: startJump_def Let_def case_prod_beta split: option.splits)

lemma escapeJump_effect:
  "jumpTarget (escapeJump inst env mx my s) = chooseDestination inst env mx my (state s)"
  "isJumping (state (escapeJump inst env mx my s))"
  "\<not> isReturning (state (escapeJump inst env mx my s))"
  "isCaught (state (escapeJump inst env mx my s)) = isCaught (state s)"
  "jumpAnimFrame (escapeJump inst env mx my s) = Some (nextFrame s)"
  "(nextFrame s, JumpAnimate) \<in> set (frames (escapeJump inst env mx my s))"
  "calls (escapeJump inst env mx my s) = calls s @ (if onEscape (opts inst) then [OnEscape] else [])"
  "animationFrame (escapeJump inst env mx my s) = None"
  "returnTimeout (escapeJump inst env mx my s) = None"
  by (simp_all add: escapeJump_def Let_def case_prod_beta state_startJump frames_startJump
      jumpTarget_def split: option.splits)

lemma state_showTaunt:
  "state (showTaunt inst env s) =
     (if 600 < dateNow env - lastTauntTime (state s)
      then (state s)\<lparr>lastTauntTime := dateNow env\<rparr> else state s)"
  by (simp add: showTaunt_def Let_def case_prod_beta)

lemma escapeFrom_not_triggered:
  "\<not> escapeTriggered inst env mx my s \<Longrightarrow> escapeFrom inst env mx my s = s"
  by (auto simp add: escapeTriggered_def escapeFrom_def)

lemma escapeFrom_triggered:
  assumes "escapeTriggered inst env mx my s"
  shows "jumpTarget (escapeFrom inst env mx my s) = chooseDestination inst env mx my (state s)"
    and "isJumping (state (escapeFrom inst env mx my s))"
    and "\<not> isReturning (state (escapeFrom inst env mx my s))"
    and "jumpAnimFrame (escapeFrom inst env mx my s) = Some (nextFrame s)"
    and "(nextFrame s, JumpAnimate) \<in> set (frames (escapeFrom inst env mx my s))"
    and "calls (escapeFrom inst env mx my s) = calls s @ (if onEscape (opts inst) then [OnEscape] else [])"
  using assms
  by (simp_all add: escapeTriggered_def escapeFrom_def Let_def state_showTaunt escapeJump_effect
      escapeJump_effect(1)[unfolded jumpTarget_def] jumpTarget_def)


lemma handleMouseMove_escape:
  "state (handleMouseMove inst env mx my s) = state (escapeFrom inst env mx my s)"
  "frames (handleMouseMove inst env mx my s) = frames (escapeFrom inst env mx my s)"
  "jumpAnimFrame (handleMouseMove inst env mx my s) = jumpAnimFrame (escapeFrom inst env mx my s)"
  "calls (handleMouseMove inst env mx my s) = calls (escapeFrom inst env mx my s)"
  by (simp_all add: handleMouseMove_def Let_def case_prod_beta)

lemma distance_horizontal: "distance x y x' y = \<bar>x' - x\<bar>"
  by (simp add: distance_def)

text \<open>
  C1: a pointer position triggers an escape exactly when its distance from the centre of the
  element is below \<open>detectionRadius\<close> and the element is neither caught nor jumping. When
  it is triggered, the element is jumping, a jump frame is requested and \<open>onEscape\<close> (if
  supplied) is invoked once; otherwise \<^verbatim>\<open>escapeFrom\<close> changes nothing, and the handler of
  the pointer event starts no jump, requests no frame and invokes no callback.
\<close>

theorem escape_triggered_exactly_within_radius:
  "(escapeTriggered inst env mx my s \<longrightarrow>
      isJumping (state (escapeFrom inst env mx my s))
      \<and> jumpAnimFrame (escapeFrom inst env mx my s) = Some (nextFrame s)
      \<and> (nextFrame s, JumpAnimate) \<in> set (frames (escapeFrom inst env mx my s))
      \<and> calls (escapeFrom inst env mx my s) = calls s @ (if onEscape (opts inst) then [OnEscape] else [])
      \<and> isJumping (state (handleMouseMove inst env mx my s))
      \<and> jumpAnimFrame (handleMouseMove inst env mx my s) = Some (nextFrame s)
      \<and> (nextFrame s, JumpAnimate) \<in> set (frames (handleMouseMove inst env mx my s))
      \<and> calls (handleMouseMove inst env mx my s)
          = calls s @ (if onEscape (opts inst) then [OnEscape] else []))
   \<and> (\<not> escapeTriggered inst env mx my s \<longrightarrow>
      escapeFrom inst env mx my s = s
      \<and> state (handleMouseMove inst env mx my s) = state s
      \<and> jumpAnimFrame (handleMouseMove inst env mx my s) = jumpAnimFrame s
      \<and> frames (handleMouseMove inst env mx my s) = frames s
      \<and> calls (handleMouseMove inst env mx my s) = calls s)"
proof (intro conjI impI)
  assume t: "escapeTriggered inst env mx my s"
  note e = escapeFrom_triggered[OF t]
  show "isJumping (state (escapeFrom inst env mx my s))" by (rule e(2))
  show "jumpAnimFrame (escapeFrom inst env mx my s) = Some (nextFrame s)" by (rule e(4))
  show "(nextFrame s, JumpAnimate) \<in> set (frames (escapeFrom inst env mx my s))" by (rule e(5))
  show "calls (escapeFrom inst env mx my s) = calls s @ (if onEscape (opts inst) then [OnEscape] else [])"
    by (rule e(6))
  show "isJumping (state (handleMouseMove inst env mx my s))"
    unfolding handleMouseMove_escape by (rule e(2))
  show "jumpAnimFrame (handleMouseMove inst env mx my s) = Some (nextFrame s)"
    unfolding handleMouseMove_escape by (rule e(4))
  show "(nextFrame s, JumpAnimate) \<in> set (frames (handleMouseMove inst env mx my s))"
    unfolding handleMouseMove_escape by (rule e(5))
  show "calls (handleMouseMove inst env mx my s)
          = calls s @ (if onEscape (opts inst) then [OnEscape] else [])"
    unfolding handleMouseMove_escape by (rule e(6))
next
  assume n: "\<not> escapeTriggered inst env mx my s"
  then show e: "escapeFrom inst env mx my s = s" by (rule escapeFrom_not_triggered)
  show "state (handleMouseMove inst env mx my s) = state s"
    "jumpAnimFrame (handleMouseMove inst env mx my s) = jumpAnimFrame s"
    "frames (handleMouseMove inst env mx my s) = frames s"
    "calls (handleMouseMove inst env mx my s) = calls s"
    unfolding handleMouseMove_escape e by (rule refl)+
qed

theorem escape_triggered_exactly_within_radius_witness:
  "detectionRadius defaultOpts = 140
   \<and> distance 590 360 (centerX exampleEnv) (centerY exampleEnv) = 50
   \<and> escapeTriggered (exampleInstance defaultOpts) exampleEnv 590 360 (exampleCtrl defaultOpts)
   \<and> isJumping (state (escapeFrom (exampleInstance defaultOpts) exampleEnv 590 360 (exampleCtrl defaultOpts)))
   \<and> calls (escapeFrom (exampleInstance defaultOpts) exampleEnv 590 360 (exampleCtrl defaultOpts)) = [OnEscape]
   \<and> distance 840 360 (centerX exampleEnv) (centerY exampleEnv) = 200
   \<and> \<not> escapeTriggered (exampleInstance defaultOpts) exampleEnv 840 360 (exampleCtrl defaultOpts)
   \<and> escapeFrom (exampleInstance defaultOpts) exampleEnv 840 360 (exampleCtrl defaultOpts)
       = exampleCtrl defaultOpts"
proof -
  have r: "detectionRadius defaultOpts = 140" "onEscape defaultOpts" by (simp_all add: defaultOpts_def)
  have d1: "distance 590 360 (centerX exampleEnv) (centerY exampleEnv) = 50"
    and d2: "distance 840 360 (centerX exampleEnv) (centerY exampleEnv) = 200"
    by (simp_all add: exampleEnv_def distance_horizontal)
  have t1: "escapeTriggered (exampleInstance defaultOpts) exampleEnv 590 360 (exampleCtrl defaultOpts)"
    by (simp add: escapeTriggered_def d1 r initialState_def)
  have t2: "\<not> escapeTriggered (exampleInstance defaultOpts) exampleEnv 840 360 (exampleCtrl defaultOpts)"
    by (simp add: escapeTriggered_def d2 r)
  from escape_triggered_exactly_within_radius[of "exampleInstance defaultOpts" exampleEnv 590 360
      "exampleCtrl defaultOpts"] t1 r
  have a: "isJumping (state (escapeFrom (exampleInstance defaultOpts) exampleEnv 590 360 (exampleCtrl defaultOpts)))
   \<and> calls (escapeFrom (exampleInstance defaultOpts) exampleEnv 590 360 (exampleCtrl defaultOpts)) = [OnEscape]"
    by simp
  from escape_triggered_exactly_within_radius[of "exampleInstance defaultOpts" exampleEnv 840 360
      "exampleCtrl defaultOpts"] t2
  have b: "escapeFrom (exampleInstance defaultOpts) exampleEnv 840 360 (exampleCtrl defaultOpts)
       = exampleCtrl defaultOpts"
    by blast
  from r d1 d2 t1 t2 a b show ?thesis by blast
qed

lemma candidates_explicit:
  assumes "len = (if mx = centerX env \<and> my = centerY env then 1
                  else sqrt ((centerX env - mx)\<^sup>2 + (centerY env - my)\<^sup>2))"
  shows "candidates inst env mx my st =
     map (\<lambda>a. (clamp (currentX st
                       + ((centerX env - mx) / len * cos a - (centerY env - my) / len * sin a)
                         * escapeDistance (opts inst))
                  (- (innerWidth env / 2 - rectWidth env / 2 - edgePadding (opts inst)))
                  (innerWidth env / 2 - rectWidth env / 2 - edgePadding (opts inst)),
                clamp (currentY st
                       + ((centerX env - mx) / len * sin a + (centerY env - my) / len * cos a)
                         * escapeDistance (opts inst))
                  (- innerHeight env * (55 / 100))
                  (innerHeight env * (25 / 100))))
       [0, 3 / 10, - (3 / 10), 6 / 10, - (6 / 10), 9 / 10, - (9 / 10), 12 / 10, - (12 / 10), pi]"
  unfolding assms
  by (simp only: candidates_def candidate_def angles_def envelope_def escapeDir_explicit Let_def
      list.map prod.case fst_conv snd_conv)

text \<open>
  A candidate is never farther from a current position inside the envelope than the point it
  was clamped from.
\<close>

lemma clamp_nonexpansive:
  assumes "mn \<le> c" and "c \<le> mx"
  shows "(clamp v mn mx - c)\<^sup>2 \<le> (v - c)\<^sup>2"
proof -
  have "\<bar>clamp v mn mx - c\<bar> \<le> \<bar>v - c\<bar>"
    using assms by (auto simp add: clamp_def min_def max_def)
  then show ?thesis by (simp add: abs_le_square_iff)
qed

lemma candidate_not_farther:
  assumes "inEnvelope (envelope inst env) (currentX st, currentY st)" and "j < length angles"
  shows "displacement st (candidates inst env mx my st ! j)
           \<le> displacement st (unclamped inst env mx my st (angles ! j))"
proof -
  obtain maxX minY maxY where e: "envelope inst env = (maxX, minY, maxY)"
    by (cases "envelope inst env") auto
  obtain x y where p: "unclamped inst env mx my st (angles ! j) = (x, y)"
    by (cases "unclamped inst env mx my st (angles ! j)") auto
  from assms(1) have b: "- maxX \<le> currentX st" "currentX st \<le> maxX"
    "minY \<le> currentY st" "currentY st \<le> maxY"
    unfolding e by (auto simp add: inEnvelope_def abs_le_iff)
  have c: "candidates inst env mx my st ! j = (clamp x (- maxX) maxX, clamp y minY maxY)"
    using assms(2) p by (simp add: candidates_def candidate_def unclamped_def e case_prod_beta Let_def)
  have "(clamp x (- maxX) maxX - currentX st)\<^sup>2 + (clamp y minY maxY - currentY st)\<^sup>2
      \<le> (x - currentX st)\<^sup>2 + (y - currentY st)\<^sup>2"
    by (intro add_mono clamp_nonexpansive b)
  then show ?thesis unfolding c p by (simp add: displacement_def distance_def)
qed

text \<open>
  Rounding decides between candidates that tie. The pointer is at (592, 346), 50 pixels from
  the centre of the resting button, so the direction is (0.96, 0.28). The candidates at
  angles 0 and -0.6 both lie inside the envelope, exactly 280 pixels away. On a host that
  rounds the displacement of the second one up by one unit in the last place, to
  280.00000000000006, the jump goes there, to about (266.118, -87.070), and not to the first
  candidate (268.8, 78.4).
\<close>

lemma sqrt_2500: "sqrt 2500 = 50"
  by (rule real_sqrt_unique) simp_all

lemma roundedEnv_fields [simp]:
  "centerX roundedEnv = 640" "centerY roundedEnv = 360"
  "innerWidth roundedEnv = 1280" "innerHeight roundedEnv = 720" "rectWidth roundedEnv = 100"
  "rounding roundedEnv a = (if a = - (6 / 10) then oneUlp else noRounding)"
  by (simp_all add: roundedEnv_def exampleEnv_def)

lemma escapeDir_roundedEnv: "escapeDir roundedEnv 592 346 = (24 / 25, 7 / 25)"
  unfolding escapeDir_explicit by (simp add: sqrt_2500)

lemma rounding_decides_between_ties:
  fixes I :: Instance and C :: Ctrl
  defines "I \<equiv> exampleInstance defaultOpts"
  defines "C \<equiv> exampleCtrl defaultOpts"
  shows "escapeTriggered I roundedEnv 592 346 C
     \<and> candidates I roundedEnv 592 346 (state C) ! 0 = (1344 / 5, 392 / 5)
     \<and> displacement (state C) (candidates I roundedEnv 592 346 (state C) ! 0) = 280
     \<and> candidates I roundedEnv 592 346 (state C) ! 4
          = ((24 / 25 * cos (6 / 10) + 7 / 25 * sin (6 / 10)) * 280,
             (7 / 25 * cos (6 / 10) - 24 / 25 * sin (6 / 10)) * 280)
     \<and> displacement (state C) (candidates I roundedEnv 592 346 (state C) ! 4) = 280
     \<and> computedDisplacement roundedEnv (state C) (angles ! 4)
            (candidates I roundedEnv 592 346 (state C) ! 4) = 280 * (1 + 1 / 2 ^ 52)
     \<and> jumpTarget (escapeFrom I roundedEnv 592 346 C) = candidates I roundedEnv 592 346 (state C) ! 4
     \<and> jumpTarget (escapeFrom I roundedEnv 592 346 C) \<noteq> candidates I roundedEnv 592 346 (state C) ! 0"
proof -
  let ?st = "state C"
  let ?cs = "candidates I roundedEnv 592 346 ?st"
  let ?un = "unclamped I roundedEnv 592 346 ?st"
  let ?t = "chooseDestination I roundedEnv 592 346 ?st"
  have cur: "currentX ?st = 0" "currentY ?st = 0"
    by (simp_all add: C_def initialState_def)
  have o: "escapeDistance (opts I) = 280" "detectionRadius (opts I) = 140" "edgePadding (opts I) = 60"
    by (simp_all add: I_def defaultOpts_def)
  have envl: "envelope I roundedEnv = (530, - 396, 180)"
    by (simp add: envelope_def o)
  have "distance 592 346 (centerX roundedEnv) (centerY roundedEnv) = 50"
    by (simp add: distance_def sqrt_2500)
  then have tr: "escapeTriggered I roundedEnv 592 346 C"
    by (simp add: escapeTriggered_def o C_def initialState_def)
  have off: "(592 :: real) \<noteq> centerX roundedEnv \<or> (346 :: real) \<noteq> centerY roundedEnv" by simp
  have a0: "angles ! 0 = 0" and a4: "angles ! 4 = - (6 / 10)" by (simp_all add: angles_def)
  have l0: "0 < length angles" and l4: "4 < length angles" by (simp_all add: length_angles)
  have inside: "inEnvelope (envelope I roundedEnv) (currentX ?st, currentY ?st)"
    by (simp add: envl cur inEnvelope_def)
  have far: "\<And>j. j < length angles \<Longrightarrow> displacement ?st (?cs ! j) \<le> 280"
    using candidate_not_farther[OF inside] displacement_unclamped[OF off, of ?st I] o(1)
    by (metis abs_numeral)
  have u0: "?un 0 = (1344 / 5, 392 / 5)"
    by (simp add: unclamped_def escapeDir_roundedEnv cur o)
  have "inEnvelope (envelope I roundedEnv) (?un (angles ! 0))"
    by (simp add: a0 u0 envl inEnvelope_def)
  note tie0 = unclamped_candidates_tie[OF off l0 this]
  have c0: "?cs ! 0 = (1344 / 5, 392 / 5)"
    using tie0[THEN conjunct1] unfolding a0 u0 .
  have d0: "displacement ?st (?cs ! 0) = 280"
    using tie0[THEN conjunct2] by (simp add: o)
  define s where "s = sin (6 / 10 :: real)"
  define c where "c = cos (6 / 10 :: real)"
  have "(6 / 10 :: real) < pi" using pi_ge_two by simp
  then have s: "0 < s" unfolding s_def by (intro sin_gt_zero) simp_all
  have c: "c \<le> 1" unfolding c_def by simp
  define x4 where "x4 = (24 / 25 * c + 7 / 25 * s) * 280"
  define y4 where "y4 = (7 / 25 * c - 24 / 25 * s) * 280"
  have u4: "?un (- (6 / 10)) = (x4, y4)"
    by (simp add: unclamped_def escapeDir_roundedEnv cur o x4_def y4_def s_def c_def algebra_simps)
  have "displacement ?st (?un (- (6 / 10))) = 280"
    using displacement_unclamped[OF off, of ?st I "- (6 / 10)"] by (simp add: o)
  then have r: "sqrt (x4\<^sup>2 + y4\<^sup>2) = 280"
    unfolding u4 by (simp add: displacement_def distance_def cur)
  have "\<bar>x4\<bar> \<le> sqrt (x4\<^sup>2 + y4\<^sup>2)" "\<bar>y4\<bar> \<le> sqrt (x4\<^sup>2 + y4\<^sup>2)"
    by (simp_all add: real_le_rsqrt)
  then have b4: "\<bar>x4\<bar> \<le> 280" "\<bar>y4\<bar> \<le> 280" unfolding r by simp_all
  have y4lt: "y4 < 392 / 5" using s c by (simp add: y4_def)
  have "inEnvelope (envelope I roundedEnv) (?un (angles ! 4))"
    unfolding a4 u4 envl using b4 y4lt by (simp add: inEnvelope_def)
  note tie4 = unclamped_candidates_tie[OF off l4 this]
  have c4: "?cs ! 4 = (x4, y4)"
    using tie4[THEN conjunct1] unfolding a4 u4 .
  have d4: "displacement ?st (?cs ! 4) = 280"
    using tie4[THEN conjunct2] by (simp add: o)
  have comp4: "280 < computedDisplacement roundedEnv ?st (angles ! 4) (?cs ! 4)"
    unfolding computedDisplacement_def d4 a4 by (simp add: relErr_oneUlp)
  from chooseDestination_select[of I roundedEnv 592 346 ?st] obtain i where i: "i < length angles"
    "?t = ?cs ! i"
    "\<forall>j < length angles. computedDisplacement roundedEnv ?st (angles ! j) (?cs ! j)
          \<le> computedDisplacement roundedEnv ?st (angles ! i) (?cs ! i)"
    by blast
  from i(3) l4 comp4 have big: "280 < computedDisplacement roundedEnv ?st (angles ! i) (?cs ! i)"
    by fastforce
  have ai: "angles ! i = - (6 / 10)"
  proof (rule ccontr)
    assume "angles ! i \<noteq> - (6 / 10)"
    then have "computedDisplacement roundedEnv ?st (angles ! i) (?cs ! i) = displacement ?st (?cs ! i)"
      by (simp add: computedDisplacement_def)
    with far[OF i(1)] big show False by simp
  qed
  have "?cs ! i = ?cs ! 4"
    using i(1) l4 by (simp add: candidates_def ai a4)
  then have t4: "?t = ?cs ! 4" using i(2) by simp
  have jt: "jumpTarget (escapeFrom I roundedEnv 592 346 C) = ?t"
    using tr by (rule escapeFrom_triggered(1))
  have ne: "?cs ! 4 \<noteq> ?cs ! 0" unfolding c4 c0 using y4lt by simp
  have c4': "?cs ! 4 = ((24 / 25 * cos (6 / 10) + 7 / 25 * sin (6 / 10)) * 280,
             (7 / 25 * cos (6 / 10) - 24 / 25 * sin (6 / 10)) * 280)"
    unfolding c4 x4_def y4_def s_def c_def ..
  have comp4': "computedDisplacement roundedEnv ?st (angles ! 4) (?cs ! 4) = 280 * (1 + 1 / 2 ^ 52)"
    unfolding computedDisplacement_def d4 a4 by (simp add: relErr_oneUlp)
  from ne have ne': "?t \<noteq> ?cs ! 0" unfolding t4 .
  from tr c0 d0 c4' d4 comp4' t4 ne' show ?thesis unfolding jt by (intro conjI)
qed

text \<open>
  C2 as stated fails: the envelope can be empty. On a viewport 320 pixels wide, for a button
  220 pixels wide and the default padding of 60, the horizontal bound is
  \<open>160 - 110 - 60 = -10\<close>; an escape is triggered by a pointer 50 pixels left of the
  centre, and no destination satisfies \<open>\<bar>x\<bar> \<le> -10\<close>.
\<close>

theorem narrow_viewport_counterexample:
  "escapeTriggered (exampleInstance defaultOpts) narrowEnv 110 320 (exampleCtrl defaultOpts)
   \<and> \<not> inEnvelope (envelope (exampleInstance defaultOpts) narrowEnv)
         (jumpTarget (escapeFrom (exampleInstance defaultOpts) narrowEnv 110 320 (exampleCtrl defaultOpts)))"
proof -
  have "distance 110 320 (centerX narrowEnv) (centerY narrowEnv) = 50"
    by (simp add: narrowEnv_def distance_horizontal)
  then have tr: "escapeTriggered (exampleInstance defaultOpts) narrowEnv 110 320 (exampleCtrl defaultOpts)"
    by (simp add: escapeTriggered_def defaultOpts_def initialState_def)
  have "fst (envelope (exampleInstance defaultOpts) narrowEnv) = - 10"
    by (simp add: envelope_def narrowEnv_def defaultOpts_def)
  moreover have "\<And>p :: real \<times> real. \<not> \<bar>fst p\<bar> \<le> - 10"
  proof -
    fix p :: "real \<times> real"
    show "\<not> \<bar>fst p\<bar> \<le> - 10" using abs_ge_zero[of "fst p"] by linarith
  qed
  ultimately have "\<not> inEnvelope (envelope (exampleInstance defaultOpts) narrowEnv)
         (jumpTarget (escapeFrom (exampleInstance defaultOpts) narrowEnv 110 320 (exampleCtrl defaultOpts)))"
    by (simp add: inEnvelope_def)
  with tr show ?thesis by blast
qed

text \<open>
  C2 as amended: for every triggered escape the ten candidates are the current position plus
  \<open>escapeDistance\<close> times the unit vector from the pointer to the centre of the element
  (the zero vector when the pointer is on the centre), rotated by 0, 0.3, -0.3, 0.6, -0.6,
  0.9, -0.9, 1.2, -1.2 and \<open>\<pi>\<close>, each clamped to
  \<open>\<bar>x\<bar> \<le> viewportWidth / 2 - elementWidth / 2 - edgePadding\<close> and
  \<open>-0.55 * viewportHeight \<le> y \<le> 0.25 * viewportHeight\<close>. The jump target is the first
  candidate, in that order, whose displacement from the current position as computed by the
  host is the largest. Whatever the rounding, if every relative rounding error is at most
  \<open>u\<close> then \<open>1 - u\<close> times the displacement of any candidate is at most \<open>1 + u\<close> times that of
  the target; in exact arithmetic the target is the first candidate of maximal displacement.
  Off the centre, every candidate that the clamp leaves alone is exactly \<open>escapeDistance\<close>
  away, so that between these rounding decides and angle order does not. When the envelope
  is not empty (the horizontal bound and the viewport height are not negative) the jump
  target lies within it; its bounds are the numbers that the code computes for them.
\<close>

theorem escape_destination_farthest_as_computed:
  fixes inst :: Instance and env :: Env and mx my :: real and s :: Ctrl
  defines "st \<equiv> state s"
  defines "len \<equiv> if mx = centerX env \<and> my = centerY env then 1
                   else sqrt ((centerX env - mx)\<^sup>2 + (centerY env - my)\<^sup>2)"
  defines "cands \<equiv> candidates inst env mx my (state s)"
  defines "target \<equiv> jumpTarget (escapeFrom inst env mx my s)"
  defines "computed \<equiv> \<lambda>j. computedDisplacement env (state s) (angles ! j)
                          (candidates inst env mx my (state s) ! j)"
  assumes triggered: "escapeTriggered inst env mx my s"
  shows "cands =
     map (\<lambda>a. (clamp (currentX st
                       + ((centerX env - mx) / len * cos a - (centerY env - my) / len * sin a)
                         * escapeDistance (opts inst))
                  (- (innerWidth env / 2 - rectWidth env / 2 - edgePadding (opts inst)))
                  (innerWidth env / 2 - rectWidth env / 2 - edgePadding (opts inst)),
                clamp (currentY st
                       + ((centerX env - mx) / len * sin a + (centerY env - my) / len * cos a)
                         * escapeDistance (opts inst))
                  (- innerHeight env * (55 / 100))
                  (innerHeight env * (25 / 100))))
       [0, 3 / 10, - (3 / 10), 6 / 10, - (6 / 10), 9 / 10, - (9 / 10), 12 / 10, - (12 / 10), pi]
   \<and> (\<exists>i < 10. target = cands ! i
         \<and> (\<forall>j < 10. computed j \<le> computed i)
         \<and> (\<forall>j < i. computed j < computed i))
   \<and> (\<forall>u. (\<forall>a \<in> set angles. \<bar>relErr (rounding env a)\<bar> \<le> u) \<longrightarrow>
           (\<forall>c \<in> set cands. (1 - u) * displacement st c \<le> (1 + u) * displacement st target))
   \<and> ((\<forall>a \<in> set angles. relErr (rounding env a) = 0) \<longrightarrow>
         (\<exists>i < 10. target = cands ! i
            \<and> (\<forall>j < 10. displacement st (cands ! j) \<le> displacement st target)
            \<and> (\<forall>j < i. displacement st (cands ! j) < displacement st target)))
   \<and> (mx \<noteq> centerX env \<or> my \<noteq> centerY env \<longrightarrow>
         (\<forall>j < 10. inEnvelope (envelope inst env) (unclamped inst env mx my st (angles ! j)) \<longrightarrow>
              cands ! j = unclamped inst env mx my st (angles ! j)
            \<and> displacement st (cands ! j) = \<bar>escapeDistance (opts inst)\<bar>))
   \<and> (0 \<le> innerWidth env / 2 - rectWidth env / 2 - edgePadding (opts inst) \<and> 0 \<le> innerHeight env
        \<longrightarrow> inEnvelope (envelope inst env) target)"
proof -
  have t: "target = chooseDestination inst env mx my (state s)"
    unfolding target_def using triggered by (rule escapeFrom_triggered(1))
  have A: "cands =
     map (\<lambda>a. (clamp (currentX st
                       + ((centerX env - mx) / len * cos a - (centerY env - my) / len * sin a)
                         * escapeDistance (opts inst))
                  (- (innerWidth env / 2 - rectWidth env / 2 - edgePadding (opts inst)))
                  (innerWidth env / 2 - rectWidth env / 2 - edgePadding (opts inst)),
                clamp (currentY st
                       + ((centerX env - mx) / len * sin a + (centerY env - my) / len * cos a)
                         * escapeDistance (opts inst))
                  (- innerHeight env * (55 / 100))
                  (innerHeight env * (25 / 100))))
       [0, 3 / 10, - (3 / 10), 6 / 10, - (6 / 10), 9 / 10, - (9 / 10), 12 / 10, - (12 / 10), pi]"
    unfolding cands_def st_def by (rule candidates_explicit) (simp add: len_def)
  have B: "\<exists>i < 10. target = cands ! i
         \<and> (\<forall>j < 10. computed j \<le> computed i)
         \<and> (\<forall>j < i. computed j < computed i)"
    unfolding t cands_def computed_def
    using chooseDestination_select[of inst env mx my "state s"] unfolding length_angles .
  have C: "\<forall>u. (\<forall>a \<in> set angles. \<bar>relErr (rounding env a)\<bar> \<le> u) \<longrightarrow>
           (\<forall>c \<in> set cands. (1 - u) * displacement st c \<le> (1 + u) * displacement st target)"
  proof (intro allI impI ballI)
    fix u c
    assume "\<forall>a \<in> set angles. \<bar>relErr (rounding env a)\<bar> \<le> u" and "c \<in> set cands"
    then show "(1 - u) * displacement st c \<le> (1 + u) * displacement st target"
      unfolding t cands_def st_def by (rule chooseDestination_nearly_farthest)
  qed
  have D: "(\<forall>a \<in> set angles. relErr (rounding env a) = 0) \<longrightarrow>
         (\<exists>i < 10. target = cands ! i
            \<and> (\<forall>j < 10. displacement st (cands ! j) \<le> displacement st target)
            \<and> (\<forall>j < i. displacement st (cands ! j) < displacement st target))"
  proof
    assume "\<forall>a \<in> set angles. relErr (rounding env a) = 0"
    from chooseDestination_exact[OF this, of inst mx my "state s"]
    show "\<exists>i < 10. target = cands ! i
            \<and> (\<forall>j < 10. displacement st (cands ! j) \<le> displacement st target)
            \<and> (\<forall>j < i. displacement st (cands ! j) < displacement st target)"
      unfolding t cands_def st_def length_angles .
  qed
  have E: "mx \<noteq> centerX env \<or> my \<noteq> centerY env \<longrightarrow>
         (\<forall>j < 10. inEnvelope (envelope inst env) (unclamped inst env mx my st (angles ! j)) \<longrightarrow>
              cands ! j = unclamped inst env mx my st (angles ! j)
            \<and> displacement st (cands ! j) = \<bar>escapeDistance (opts inst)\<bar>)"
  proof (intro impI allI)
    fix j :: nat
    assume off: "mx \<noteq> centerX env \<or> my \<noteq> centerY env" and "j < 10"
      and ins: "inEnvelope (envelope inst env) (unclamped inst env mx my st (angles ! j))"
    then have j: "j < length angles" by (simp add: length_angles)
    from unclamped_candidates_tie[OF off j ins[unfolded st_def]]
    show "cands ! j = unclamped inst env mx my st (angles ! j)
            \<and> displacement st (cands ! j) = \<bar>escapeDistance (opts inst)\<bar>"
      unfolding cands_def st_def .
  qed
  have F: "0 \<le> innerWidth env / 2 - rectWidth env / 2 - edgePadding (opts inst) \<and> 0 \<le> innerHeight env
        \<longrightarrow> inEnvelope (envelope inst env) target"
    unfolding t using chooseDestination_inEnvelope[of inst env mx my "state s"]
    by (simp add: envelope_def)
  from A B C D E F show ?thesis by (intro conjI)
qed

theorem escape_destination_farthest_as_computed_witness:
  "escapeTriggered (exampleInstance defaultOpts) exampleEnv 590 360 (exampleCtrl defaultOpts)
   \<and> (\<forall>a. relErr (rounding exampleEnv a) = 0)
   \<and> (590 :: real) \<noteq> centerX exampleEnv
   \<and> inEnvelope (envelope (exampleInstance defaultOpts) exampleEnv)
        (unclamped (exampleInstance defaultOpts) exampleEnv 590 360
           (state (exampleCtrl defaultOpts)) (angles ! 0))
   \<and> 0 \<le> innerWidth exampleEnv / 2 - rectWidth exampleEnv / 2 - edgePadding (opts (exampleInstance defaultOpts))
   \<and> 0 \<le> innerHeight exampleEnv
   \<and> candidates (exampleInstance defaultOpts) exampleEnv 590 360 (state (exampleCtrl defaultOpts)) ! 0
       = (280, 0)
   \<and> 280 \<le> displacement (state (exampleCtrl defaultOpts))
        (jumpTarget (escapeFrom (exampleInstance defaultOpts) exampleEnv 590 360 (exampleCtrl defaultOpts)))
   \<and> inEnvelope (envelope (exampleInstance defaultOpts) exampleEnv)
        (jumpTarget (escapeFrom (exampleInstance defaultOpts) exampleEnv 590 360 (exampleCtrl defaultOpts)))"
proof -
  let ?I = "exampleInstance defaultOpts"
  let ?C = "exampleCtrl defaultOpts"
  let ?st = "state ?C"
  let ?cs = "candidates ?I exampleEnv 590 360 ?st"
  let ?t = "jumpTarget (escapeFrom ?I exampleEnv 590 360 ?C)"
  have "distance 590 360 (centerX exampleEnv) (centerY exampleEnv) = 50"
    by (simp add: exampleEnv_def distance_horizontal)
  then have t: "escapeTriggered ?I exampleEnv 590 360 ?C"
    by (simp add: escapeTriggered_def defaultOpts_def initialState_def)
  have r: "\<forall>a. relErr (rounding exampleEnv a) = 0" by (simp add: exampleEnv_def)
  have off: "(590 :: real) \<noteq> centerX exampleEnv" by (simp add: exampleEnv_def)
  have h: "0 \<le> innerWidth exampleEnv / 2 - rectWidth exampleEnv / 2 - edgePadding (opts ?I)"
    "0 \<le> innerHeight exampleEnv"
    by (simp_all add: exampleEnv_def defaultOpts_def)
  have "escapeDir exampleEnv 590 360 = (1, 0)"
    unfolding escapeDir_explicit by (simp add: exampleEnv_def)
  then have u0: "unclamped ?I exampleEnv 590 360 ?st (angles ! 0) = (280, 0)"
    by (simp add: unclamped_def angles_def defaultOpts_def initialState_def)
  have ins: "inEnvelope (envelope ?I exampleEnv) (unclamped ?I exampleEnv 590 360 ?st (angles ! 0))"
    unfolding u0 by (simp add: inEnvelope_def envelope_def exampleEnv_def defaultOpts_def)
  note T = escape_destination_farthest_as_computed[OF t]
  from T have D: "(\<forall>a \<in> set angles. relErr (rounding exampleEnv a) = 0) \<longrightarrow>
         (\<exists>i < 10. ?t = ?cs ! i
            \<and> (\<forall>j < 10. displacement ?st (?cs ! j) \<le> displacement ?st ?t)
            \<and> (\<forall>j < i. displacement ?st (?cs ! j) < displacement ?st ?t))"
    by (elim conjE)
  from T have E: "(590 :: real) \<noteq> centerX exampleEnv \<or> (360 :: real) \<noteq> centerY exampleEnv \<longrightarrow>
         (\<forall>j < 10. inEnvelope (envelope ?I exampleEnv) (unclamped ?I exampleEnv 590 360 ?st (angles ! j)) \<longrightarrow>
              ?cs ! j = unclamped ?I exampleEnv 590 360 ?st (angles ! j)
            \<and> displacement ?st (?cs ! j) = \<bar>escapeDistance (opts ?I)\<bar>)"
    by (elim conjE)
  from T have F: "0 \<le> innerWidth exampleEnv / 2 - rectWidth exampleEnv / 2 - edgePadding (opts ?I)
        \<and> 0 \<le> innerHeight exampleEnv \<longrightarrow> inEnvelope (envelope ?I exampleEnv) ?t"
    by (elim conjE)
  from E off have E': "\<forall>j < 10.
      inEnvelope (envelope ?I exampleEnv) (unclamped ?I exampleEnv 590 360 ?st (angles ! j)) \<longrightarrow>
              ?cs ! j = unclamped ?I exampleEnv 590 360 ?st (angles ! j)
            \<and> displacement ?st (?cs ! j) = \<bar>escapeDistance (opts ?I)\<bar>"
    by blast
  have "(0 :: nat) < 10" by simp
  from E'[rule_format, OF this ins]
  have c0: "?cs ! 0 = unclamped ?I exampleEnv 590 360 ?st (angles ! 0)"
    and d0: "displacement ?st (?cs ! 0) = \<bar>escapeDistance (opts ?I)\<bar>"
    by blast+
  from D r have "displacement ?st (?cs ! 0) \<le> displacement ?st ?t" by auto
  then have far: "280 \<le> displacement ?st ?t" unfolding d0 by (simp add: defaultOpts_def)
  from F h have env: "inEnvelope (envelope ?I exampleEnv) ?t" by simp
  from t r off ins h c0[unfolded u0] far env show ?thesis by (intro conjI)
qed


lemma escapeLen_zero: "escapeLen 0 0 = 1"
  by (simp add: escapeLen_def)

lemma escapeLen_nonzero: "escapeLen dx dy \<noteq> 0"
  by (simp add: escapeLen_def Let_def)

lemma escapeDir_at_center: "escapeDir env (centerX env) (centerY env) = (0, 0)"
  by (simp add: escapeDir_def Let_def)

lemma candidates_at_center:
  "c \<in> set (candidates inst env (centerX env) (centerY env) st) \<Longrightarrow>
   c = (clamp (currentX st) (- fst (envelope inst env)) (fst (envelope inst env)),
        clamp (currentY st) (fst (snd (envelope inst env))) (snd (snd (envelope inst env))))"
  by (auto simp add: candidates_def escapeDir_at_center candidate_def case_prod_beta)

text \<open>
  C10: when the pointer is exactly on the centre of the element (and the detection radius is
  positive, the element neither caught nor jumping), the length the direction is divided by
  is 1 and not 0, the direction is \<open>(0, 0)\<close>, the destination is the current position
  clamped to the envelope, and a jump is started.
\<close>

theorem pointer_on_center_still_jumps:
  assumes "mx = centerX env" and "my = centerY env" and "0 < detectionRadius (opts inst)"
    and "\<not> isCaught (state s)" and "\<not> isJumping (state s)"
  shows "escapeLen (centerX env - mx) (centerY env - my) = 1
       \<and> escapeDir env mx my = (0, 0)
       \<and> jumpTarget (escapeFrom inst env mx my s)
           = (clamp (currentX (state s))
                (- (innerWidth env / 2 - rectWidth env / 2 - edgePadding (opts inst)))
                (innerWidth env / 2 - rectWidth env / 2 - edgePadding (opts inst)),
              clamp (currentY (state s)) (- innerHeight env * (55 / 100)) (innerHeight env * (25 / 100)))
       \<and> isJumping (state (escapeFrom inst env mx my s))
       \<and> jumpAnimFrame (escapeFrom inst env mx my s) = Some (nextFrame s)
       \<and> (nextFrame s, JumpAnimate) \<in> set (frames (escapeFrom inst env mx my s))"
proof -
  have t: "escapeTriggered inst env mx my s"
    using assms by (simp add: escapeTriggered_def)
  note e = escapeFrom_triggered[OF t]
  have "chooseDestination inst env mx my (state s) \<in> set (candidates inst env mx my (state s))"
    by (rule chooseDestination_candidate)
  from candidates_at_center[OF this[unfolded assms(1) assms(2)]]
  have "chooseDestination inst env mx my (state s)
           = (clamp (currentX (state s))
                (- (innerWidth env / 2 - rectWidth env / 2 - edgePadding (opts inst)))
                (innerWidth env / 2 - rectWidth env / 2 - edgePadding (opts inst)),
              clamp (currentY (state s)) (- innerHeight env * (55 / 100)) (innerHeight env * (25 / 100)))"
    unfolding assms(1) assms(2) by (simp add: envelope_def)
  then have "jumpTarget (escapeFrom inst env mx my s)
           = (clamp (currentX (state s))
                (- (innerWidth env / 2 - rectWidth env / 2 - edgePadding (opts inst)))
                (innerWidth env / 2 - rectWidth env / 2 - edgePadding (opts inst)),
              clamp (currentY (state s)) (- innerHeight env * (55 / 100)) (innerHeight env * (25 / 100)))"
    unfolding e(1) .
  moreover have "escapeLen (centerX env - mx) (centerY env - my) = 1"
    using assms(1,2) by (simp add: escapeLen_zero)
  moreover have "escapeDir env mx my = (0, 0)"
    using assms(1,2) by (simp add: escapeDir_at_center)
  ultimately show ?thesis using e(2) e(4) e(5) by blast
qed

theorem pointer_on_center_still_jumps_witness:
  "(640 :: real) = centerX exampleEnv \<and> (360 :: real) = centerY exampleEnv
   \<and> 0 < detectionRadius (opts (exampleInstance defaultOpts))
   \<and> \<not> isCaught (state (exampleCtrl defaultOpts)) \<and> \<not> isJumping (state (exampleCtrl defaultOpts))
   \<and> escapeDir exampleEnv 640 360 = (0, 0)
   \<and> jumpTarget (escapeFrom (exampleInstance defaultOpts) exampleEnv 640 360 (exampleCtrl defaultOpts)) = (0, 0)
   \<and> isJumping (state (escapeFrom (exampleInstance defaultOpts) exampleEnv 640 360 (exampleCtrl defaultOpts)))"
proof -
  have 1: "(640 :: real) = centerX exampleEnv" and 2: "(360 :: real) = centerY exampleEnv"
    by (simp_all add: exampleEnv_def)
  have 3: "0 < detectionRadius (opts (exampleInstance defaultOpts))"
    by (simp add: defaultOpts_def)
  have 4: "\<not> isCaught (state (exampleCtrl defaultOpts))"
    and 5: "\<not> isJumping (state (exampleCtrl defaultOpts))"
    by (simp_all add: initialState_def)
  have c: "clamp (currentX (state (exampleCtrl defaultOpts)))
             (- (innerWidth exampleEnv / 2 - rectWidth exampleEnv / 2
                 - edgePadding (opts (exampleInstance defaultOpts))))
             (innerWidth exampleEnv / 2 - rectWidth exampleEnv / 2
                 - edgePadding (opts (exampleInstance defaultOpts))) = 0"
    "clamp (currentY (state (exampleCtrl defaultOpts))) (- innerHeight exampleEnv * (55 / 100))
             (innerHeight exampleEnv * (25 / 100)) = 0"
    by (simp_all add: clamp_def exampleEnv_def defaultOpts_def initialState_def)
  from pointer_on_center_still_jumps[OF 1 2 3 4 5] 1 2 3 4 5 show ?thesis
    unfolding c by blast
qed

section \<open>Event sequences: jump, return and teardown\<close>

lemma run_snoc: "run inst s (evs @ [e]) = step inst (run inst s evs) e"
  by (simp add: run_def)

lemma run_Nil [simp]: "run inst s [] = s"
  by (simp add: run_def)

lemma run_Cons: "run inst s (e # evs) = run inst (step inst s e) evs"
  by (simp add: run_def)

lemma escapeJump_host:
  "timers (escapeJump inst env mx my s) =
     (case returnTimeout s of None \<Rightarrow> timers s | Some h \<Rightarrow> filter (\<lambda>t. fst t \<noteq> h) (timers s))"
  "frames (escapeJump inst env mx my s) =
     (case jumpAnimFrame s of
        None \<Rightarrow> (case animationFrame s of None \<Rightarrow> frames s
                 | Some h \<Rightarrow> filter (\<lambda>f. fst f \<noteq> h) (frames s))
      | Some j \<Rightarrow> filter (\<lambda>f. fst f \<noteq> j)
                   (case animationFrame s of None \<Rightarrow> frames s
                    | Some h \<Rightarrow> filter (\<lambda>f. fst f \<noteq> h) (frames s)))
     @ [(nextFrame s, JumpAnimate)]"
  "nextFrame (escapeJump inst env mx my s) = Suc (nextFrame s)"
  "z (state (escapeJump inst env mx my s)) = 0"
  "zVelocity (state (escapeJump inst env mx my s)) = JUMP_VELOCITY"
  "lastJumpTime (state (escapeJump inst env mx my s)) = 0"
  "lastTauntTime (state (escapeJump inst env mx my s)) = lastTauntTime (state s)"
  by (simp_all add: escapeJump_def Let_def case_prod_beta state_startJump frames_startJump
      split: option.splits)

lemma showTaunt_host:
  "timers (showTaunt inst env s) =
     (if 600 < dateNow env - lastTauntTime (state s)
      then (case tauntTimeout s of None \<Rightarrow> timers s
            | Some h \<Rightarrow> filter (\<lambda>t. fst t \<noteq> h) (timers s))
           @ [(nextTimer s, clock s + 1200, HideTaunt)]
      else timers s)"
  "nextTimer (showTaunt inst env s) =
     (if 600 < dateNow env - lastTauntTime (state s) then Suc (nextTimer s) else nextTimer s)"
  "tauntTimeout (showTaunt inst env s) =
     (if 600 < dateNow env - lastTauntTime (state s) then Some (nextTimer s) else tauntTimeout s)"
  by (simp_all add: showTaunt_def Let_def case_prod_beta split: option.splits)

lemma handleMouseLeave_host:
  "timers (handleMouseLeave inst s) =
     (case returnTimeout s of None \<Rightarrow> timers s | Some h \<Rightarrow> filter (\<lambda>t. fst t \<noteq> h) (timers s))
     @ [(nextTimer s, clock s + 200, ReturnToCenter)]"
  "nextTimer (handleMouseLeave inst s) = Suc (nextTimer s)"
  "returnTimeout (handleMouseLeave inst s) = Some (nextTimer s)"
  by (simp_all add: handleMouseLeave_def Let_def case_prod_beta split: option.splits)

lemma returnToCenter_host:
  "frames (returnToCenter inst s) =
     (case animationFrame s of None \<Rightarrow> frames s @ [(nextFrame s, SpringAnimate)] | Some h \<Rightarrow> frames s)"
  "animationFrame (returnToCenter inst s) =
     (case animationFrame s of None \<Rightarrow> Some (nextFrame s) | Some h \<Rightarrow> Some h)"
  "nextFrame (returnToCenter inst s) =
     (case animationFrame s of None \<Rightarrow> Suc (nextFrame s) | Some h \<Rightarrow> nextFrame s)"
  by (simp_all add: returnToCenter_def Let_def case_prod_beta split: option.splits)

lemma jumpAnimate_airborne:
  assumes "\<not> jumpLands (state s) ts"
  shows "timers (jumpAnimate inst env ts s) = timers s"
    and "nextTimer (jumpAnimate inst env ts s) = nextTimer s"
    and "returnTimeout (jumpAnimate inst env ts s) = returnTimeout s"
    and "frames (jumpAnimate inst env ts s) = frames s @ [(nextFrame s, JumpAnimate)]"
    and "nextFrame (jumpAnimate inst env ts s) = Suc (nextFrame s)"
    and "jumpAnimFrame (jumpAnimate inst env ts s) = Some (nextFrame s)"
    and "isJumping (state (jumpAnimate inst env ts s)) = isJumping (state s)"
    and "isReturning (state (jumpAnimate inst env ts s)) = isReturning (state s)"
    and "isCaught (state (jumpAnimate inst env ts s)) = isCaught (state s)"
  using assms by (simp_all add: jumpAnimate_def Let_def case_prod_beta jumpFall_def)

lemma handleClick_host:
  assumes "\<not> isCaught (state s)"
  shows "isCaught (state (handleClick inst s))"
    and "\<not> isJumping (state (handleClick inst s))"
    and "isReturning (state (handleClick inst s)) = isReturning (state s)"
    and "calls (handleClick inst s) = calls s @ (if onCatch (opts inst) then [OnCatch] else [])"
    and "jumpAnimFrame (handleClick inst s) = None"
    and "animationFrame (handleClick inst s) = None"
    and "returnTimeout (handleClick inst s) = None"
    and "frames (handleClick inst s) =
           (case animationFrame s of
              None \<Rightarrow> (case jumpAnimFrame s of None \<Rightarrow> frames s
                       | Some j \<Rightarrow> filter (\<lambda>f. fst f \<noteq> j) (frames s))
            | Some h \<Rightarrow> filter (\<lambda>f. fst f \<noteq> h)
                         (case jumpAnimFrame s of None \<Rightarrow> frames s
                          | Some j \<Rightarrow> filter (\<lambda>f. fst f \<noteq> j) (frames s)))"
    and "timers (handleClick inst s) =
           (case returnTimeout s of None \<Rightarrow> timers s
            | Some h \<Rightarrow> filter (\<lambda>t. fst t \<noteq> h) (timers s))
           @ [(nextTimer s, clock s + 600, CaughtReturn),
              (Suc (nextTimer s), clock s + max 0 (caughtDuration (opts inst)), CaughtRestore)]"
    and "nextTimer (handleClick inst s) = Suc (Suc (nextTimer s))"
    and "innerHTML (doc (handleClick inst s)) = caughtText (opts inst)"
    and "caughtClass (doc (handleClick inst s))"
  using assms by (simp_all add: handleClick_def Let_def split: option.splits)

lemma handleClick_caught: "isCaught (state s) \<Longrightarrow> handleClick inst s = s"
  by (simp add: handleClick_def)

lemma destroy_host:
  "timers (destroy inst s) =
     (case tauntTimeout s of
        None \<Rightarrow> (case returnTimeout s of None \<Rightarrow> timers s
                 | Some h \<Rightarrow> filter (\<lambda>t. fst t \<noteq> h) (timers s))
      | Some k \<Rightarrow> filter (\<lambda>t. fst t \<noteq> k)
                   (case returnTimeout s of None \<Rightarrow> timers s
                    | Some h \<Rightarrow> filter (\<lambda>t. fst t \<noteq> h) (timers s)))"
  "frames (destroy inst s) =
     (case jumpAnimFrame s of
        None \<Rightarrow> (case animationFrame s of None \<Rightarrow> frames s
                 | Some h \<Rightarrow> filter (\<lambda>f. fst f \<noteq> h) (frames s))
      | Some j \<Rightarrow> filter (\<lambda>f. fst f \<noteq> j)
                   (case animationFrame s of None \<Rightarrow> frames s
                    | Some h \<Rightarrow> filter (\<lambda>f. fst f \<noteq> h) (frames s)))"
  "\<not> listening (destroy inst s)"
  "innerHTML (doc (destroy inst s)) = originalContent inst"
  by (simp_all add: destroy_def Let_def split: option.splits)


lemma randomCalls_exampleCtrl: "randomCalls (exampleCtrl defaultOpts) = 9"
  by code_simp

lemma random_exampleInstance [simp]: "random (exampleInstance os) = exampleRandom"
  by (simp add: exampleInstance_def makeInstance_def)

lemma escapeFrom_triggered_eq:
  assumes "escapeTriggered inst env mx my s"
  shows "escapeFrom inst env mx my s =
     (if random inst (randomCalls s) < tauntProbability (opts inst)
      then showTaunt inst env ((escapeJump inst env mx my s)\<lparr>randomCalls := Suc (randomCalls s)\<rparr>)
      else (escapeJump inst env mx my s)\<lparr>randomCalls := Suc (randomCalls s)\<rparr>)"
  using assms by (simp add: escapeTriggered_def escapeFrom_def Let_def)

lemma first_escape:
  defines "s1 \<equiv> step (exampleInstance defaultOpts) (exampleCtrl defaultOpts) (MouseMove exampleEnv 590 360)"
  shows "isJumping (state s1)" "\<not> isReturning (state s1)" "\<not> isCaught (state s1)"
    "z (state s1) = 0" "zVelocity (state s1) = 850" "lastJumpTime (state s1) = 0"
    "frames s1 = [(1, JumpAnimate)]" "nextFrame s1 = 2" "jumpAnimFrame s1 = Some 1"
    "animationFrame s1 = None"
    "timers s1 = [(1, 1200, HideTaunt)]" "nextTimer s1 = 2" "returnTimeout s1 = None"
    "listening s1" "clock s1 = 0"
proof -
  let ?I = "exampleInstance defaultOpts" and ?S = "exampleCtrl defaultOpts"
  have t: "escapeTriggered ?I exampleEnv 590 360 ?S"
    by (simp add: escapeTriggered_def exampleEnv_def distance_horizontal defaultOpts_def initialState_def)
  have r: "random ?I (randomCalls ?S) < tauntProbability (opts ?I)"
    by (simp add: randomCalls_exampleCtrl exampleRandom_def defaultOpts_def)
  have e: "escapeFrom ?I exampleEnv 590 360 ?S =
      showTaunt ?I exampleEnv ((escapeJump ?I exampleEnv 590 360 ?S)\<lparr>randomCalls := Suc (randomCalls ?S)\<rparr>)"
    using escapeFrom_triggered_eq[OF t] r by simp
  have far: "\<not> distance 590 360 (centerX exampleEnv) (centerY exampleEnv) > detectionRadius (opts ?I) * (25 / 10)"
    by (simp add: exampleEnv_def distance_horizontal defaultOpts_def)
  have now: "600 < dateNow exampleEnv - lastTauntTime initialState"
    by (simp add: exampleEnv_def initialState_def)
  have s1: "s1 = clearIfSet (returnTimeout (escapeFrom ?I exampleEnv 590 360 ?S))
                   (escapeFrom ?I exampleEnv 590 360 ?S)"
    using far by (simp add: s1_def handleMouseMove_def Let_def)
  have rt: "returnTimeout (escapeFrom ?I exampleEnv 590 360 ?S) = None"
    unfolding e by (simp add: escapeJump_effect)
  have s1': "s1 = escapeFrom ?I exampleEnv 590 360 ?S"
    unfolding s1 rt by (simp add: clearIfSet_def)
  show "isJumping (state s1)" "\<not> isReturning (state s1)" "\<not> isCaught (state s1)"
    "z (state s1) = 0" "zVelocity (state s1) = 850" "lastJumpTime (state s1) = 0"
    unfolding s1' e
    by (simp_all add: state_showTaunt escapeJump_effect escapeJump_host JUMP_VELOCITY_def initialState_def)
  show "frames s1 = [(1, JumpAnimate)]" "nextFrame s1 = 2" "jumpAnimFrame s1 = Some 1"
    "animationFrame s1 = None"
    unfolding s1' e by (simp_all add: escapeJump_effect escapeJump_host)
  show "timers s1 = [(1, 1200, HideTaunt)]" "nextTimer s1 = 2" "returnTimeout s1 = None"
    "listening s1" "clock s1 = 0"
    unfolding s1' e using now
    by (simp_all add: showTaunt_host escapeJump_effect escapeJump_host)
qed


text \<open>
  C3 fails on the code. \<^verbatim>\<open>escapeFrom\<close> clears \<open>isReturning\<close> and cancels the pending return
  before it sets \<open>isJumping\<close>, but the handlers of pointer-move and pointer-leave schedule
  \<^verbatim>\<open>returnToCenter\<close> without looking at \<open>isJumping\<close>, and \<^verbatim>\<open>returnToCenter\<close> sets
  \<open>isReturning\<close> unconditionally. After the events of \<open>leaveDuringJump\<close> both flags are set.
\<close>

theorem jumping_and_returning_together:
  "isJumping (state (run (exampleInstance defaultOpts) (exampleCtrl defaultOpts) leaveDuringJump))
   \<and> isReturning (state (run (exampleInstance defaultOpts) (exampleCtrl defaultOpts) leaveDuringJump))"
proof -
  let ?I = "exampleInstance defaultOpts"
  define s1 where "s1 = step ?I (exampleCtrl defaultOpts) (MouseMove exampleEnv 590 360)"
  define s2 where "s2 = step ?I s1 (AnimationFrame 1 exampleEnv 16)"
  define s3 where "s3 = step ?I s2 MouseLeave"
  define s4 where "s4 = step ?I s3 (Elapse 200)"
  define s5 where "s5 = step ?I s4 (Timeout 2)"
  note f1 = first_escape[folded s1_def]
  have air: "\<not> jumpLands (state (cancelAnimationFrame 1 s1)) 16"
    by (simp add: jumpLands_def jumpFall_def Let_def f1)
  have s2: "s2 = jumpAnimate ?I exampleEnv 16 (cancelAnimationFrame 1 s1)"
    by (simp add: s2_def f1 runFrame_def)
  note a = jumpAnimate_airborne[OF air, of ?I exampleEnv, folded s2]
  have f2: "isJumping (state s2)" "timers s2 = [(1, 1200, HideTaunt)]" "nextTimer s2 = 2"
    "returnTimeout s2 = None" "listening s2" "clock s2 = 0" "animationFrame s2 = None"
    using a f1 by (simp_all add: s2)
  have s3: "s3 = handleMouseLeave ?I s2"
    by (simp add: s3_def f2)
  have f3: "isJumping (state s3)" "timers s3 = [(1, 1200, HideTaunt), (2, 200, ReturnToCenter)]"
    "clock s3 = 0" "animationFrame s3 = None"
    using f2 by (simp_all add: s3 handleMouseLeave_host)
  have f4: "isJumping (state s4)" "timers s4 = [(1, 1200, HideTaunt), (2, 200, ReturnToCenter)]"
    "clock s4 = 200"
    using f3 by (simp_all add: s4_def)
  have s5: "s5 = returnToCenter ?I (clearTimeout 2 s4)"
    by (simp add: s5_def f4)
  have "isJumping (state s5)" "isReturning (state s5)"
    using f4 by (simp_all add: s5 state_returnToCenter)
  moreover have "run ?I (exampleCtrl defaultOpts) leaveDuringJump = s5"
    by (simp add: leaveDuringJump_def run_Cons s1_def s2_def s3_def s4_def s5_def)
  ultimately show ?thesis by simp
qed

text \<open>
  C4 fails on the code. The two timers that \<^verbatim>\<open>handleClick\<close> sets are stored in no handle,
  and the teardown function cancels only the four handles. After a click and a detach both
  timers are still pending; when the first fires, 600 ms after the click, \<^verbatim>\<open>returnToCenter\<close>
  runs on the detached controller and requests an animation frame.
\<close>

theorem callbacks_fire_after_detach:
  "\<not> listening (run (exampleInstance defaultOpts) (exampleCtrl defaultOpts) [Click, Destroy])
   \<and> timers (run (exampleInstance defaultOpts) (exampleCtrl defaultOpts) [Click, Destroy])
       = [(1, 600, CaughtReturn), (2, 1100, CaughtRestore)]
   \<and> frames (run (exampleInstance defaultOpts) (exampleCtrl defaultOpts) [Click, Destroy]) = []
   \<and> isReturning (state (run (exampleInstance defaultOpts) (exampleCtrl defaultOpts) detachWhileCaught))
   \<and> frames (run (exampleInstance defaultOpts) (exampleCtrl defaultOpts) detachWhileCaught)
       = [(1, SpringAnimate)]"
proof -
  let ?I = "exampleInstance defaultOpts"
  define s1 where "s1 = step ?I (exampleCtrl defaultOpts) Click"
  define s2 where "s2 = step ?I s1 Destroy"
  define s3 where "s3 = step ?I s2 (Elapse 600)"
  define s4 where "s4 = step ?I s3 (Timeout 1)"
  have nc: "\<not> isCaught (state (exampleCtrl defaultOpts))" by (simp add: initialState_def)
  have s1: "s1 = handleClick ?I (exampleCtrl defaultOpts)" by (simp add: s1_def)
  note h = handleClick_host[OF nc, of ?I, folded s1]
  have f1: "timers s1 = [(1, 600, CaughtReturn), (2, 1100, CaughtRestore)]" "frames s1 = []"
    "jumpAnimFrame s1 = None" "animationFrame s1 = None" "returnTimeout s1 = None"
    "tauntTimeout s1 = None" "clock s1 = 0" "nextFrame s1 = 1"
    using h by (simp_all add: defaultOpts_def) (simp_all add: s1)
  have f2: "timers s2 = [(1, 600, CaughtReturn), (2, 1100, CaughtRestore)]" "frames s2 = []"
    "\<not> listening s2" "animationFrame s2 = None" "clock s2 = 0" "nextFrame s2 = 1"
    using f1 by (simp_all add: s2_def destroy_host)
  have f3: "timers s3 = [(1, 600, CaughtReturn), (2, 1100, CaughtRestore)]" "frames s3 = []"
    "animationFrame s3 = None" "clock s3 = 600" "nextFrame s3 = 1"
    using f2 by (simp_all add: s3_def)
  have s4: "s4 = runTimer ?I CaughtReturn (clearTimeout 1 s3)"
    by (simp add: s4_def f3)
  have f4: "isReturning (state s4)" "frames s4 = [(1, SpringAnimate)]"
    using f3 by (simp_all add: s4 Let_def state_returnToCenter returnToCenter_host)
  have r2: "run ?I (exampleCtrl defaultOpts) [Click, Destroy] = s2"
    by (simp add: run_Cons s1_def s2_def)
  have r4: "run ?I (exampleCtrl defaultOpts) detachWhileCaught = s4"
    by (simp add: detachWhileCaught_def run_Cons s1_def s2_def s3_def s4_def)
  show ?thesis unfolding r2 r4 using f2 f4 by simp
qed

section \<open>The caught window lasts until its timer fires\<close>

lemma map_of_filter_other:
  "h \<noteq> r \<Longrightarrow> map_of (filter (\<lambda>t. fst t \<noteq> h) xs) r = map_of xs r"
  by (induction xs) auto

lemma map_of_append_Some:
  "map_of xs r = Some v \<Longrightarrow> map_of (xs @ ys) r = Some v"
  by (simp add: map_add_Some_iff)

lemma window_pending_less:
  assumes "caughtWindow r due t"
  shows "r < nextTimer t"
proof -
  from assms have "map_of (timers t) r = Some (due, CaughtRestore)" by (simp add: caughtWindow_def)
  then have "(r, due, CaughtRestore) \<in> set (timers t)" by (rule map_of_SomeD)
  with assms show ?thesis by (fastforce simp add: caughtWindow_def)
qed

lemma window_cong:
  assumes "timers t' = timers t" "nextTimer t' = nextTimer t" "returnTimeout t' = returnTimeout t"
    "tauntTimeout t' = tauntTimeout t" "isCaught (state t') = isCaught (state t)"
  shows "caughtWindow r due t' = caughtWindow r due t"
  using assms by (simp add: caughtWindow_def)

lemma window_clearTimeout:
  assumes "caughtWindow r due t" and "h \<noteq> r"
  shows "caughtWindow r due (clearTimeout h t)"
  using assms by (auto simp add: caughtWindow_def map_of_filter_other)

lemma window_clearIfSet:
  assumes "caughtWindow r due t" and "ho \<noteq> Some r"
  shows "caughtWindow r due (clearIfSet ho t)"
  using assms by (cases ho) (auto simp add: caughtWindow_def map_of_filter_other)

lemma window_setTimeout:
  assumes "caughtWindow r due t" and "cb \<noteq> CaughtRestore"
  shows "caughtWindow r due (snd (setTimeout cb d t))"
  using assms by (auto simp add: caughtWindow_def map_of_append_Some intro: less_SucI)

lemma window_set_returnTimeout:
  assumes "caughtWindow r due t" and "ho \<noteq> Some r"
  shows "caughtWindow r due (t\<lparr>returnTimeout := ho\<rparr>)"
  using assms by (simp add: caughtWindow_def)

lemma window_schedule_return:
  assumes "caughtWindow r due t"
  shows "caughtWindow r due ((snd (setTimeout ReturnToCenter d t))\<lparr>returnTimeout := Some (nextTimer t)\<rparr>)"
proof -
  from window_pending_less[OF assms] have "Some (nextTimer t) \<noteq> Some r" by simp
  with window_setTimeout[OF assms, of ReturnToCenter d] show ?thesis
    by (intro window_set_returnTimeout) simp_all
qed

lemma window_handleMouseLeave:
  assumes "caughtWindow r due t"
  shows "caughtWindow r due (handleMouseLeave inst t)"
proof -
  let ?t1 = "clearIfSet (returnTimeout t) t"
  have 1: "caughtWindow r due ?t1" using assms by (intro window_clearIfSet) (simp_all add: caughtWindow_def)
  have "handleMouseLeave inst t = (snd (setTimeout ReturnToCenter 200 ?t1))\<lparr>returnTimeout := Some (nextTimer ?t1)\<rparr>"
    by (simp add: handleMouseLeave_def Let_def case_prod_beta)
  with window_schedule_return[OF 1] show ?thesis by simp
qed

lemma window_handleMouseMove:
  assumes "caughtWindow r due t"
  shows "caughtWindow r due (handleMouseMove inst env mx my t)"
proof -
  from assms have c: "isCaught (state t)" by (simp add: caughtWindow_def)
  then have e: "escapeFrom inst env mx my t = t" by (simp add: escapeFrom_def)
  let ?t1 = "clearIfSet (returnTimeout t) t"
  have 1: "caughtWindow r due ?t1" using assms by (intro window_clearIfSet) (simp_all add: caughtWindow_def)
  show ?thesis
  proof (cases "distance mx my (centerX env) (centerY env) > detectionRadius (opts inst) * (25 / 10)")
    case True
    then have "handleMouseMove inst env mx my t
        = (snd (setTimeout ReturnToCenter 400 ?t1))\<lparr>returnTimeout := Some (nextTimer ?t1)\<rparr>"
      by (simp add: handleMouseMove_def Let_def case_prod_beta e)
    with window_schedule_return[OF 1] show ?thesis by simp
  next
    case False
    then have "handleMouseMove inst env mx my t = ?t1"
      by (simp add: handleMouseMove_def Let_def case_prod_beta e)
    with 1 show ?thesis by simp
  qed
qed

lemma isCaught_springAnimate [simp]:
  "isCaught (state (springAnimate inst s)) = isCaught (state s)"
  by (simp add: springAnimate_def Let_def case_prod_beta springMove_def)

lemma isCaught_returnToCenter [simp]:
  "isCaught (state (returnToCenter inst s)) = isCaught (state s)"
  by (simp add: state_returnToCenter)

lemma window_springAnimate:
  "caughtWindow r due (springAnimate inst t) = caughtWindow r due t"
  by (rule window_cong) simp_all

lemma window_returnToCenter:
  "caughtWindow r due (returnToCenter inst t) = caughtWindow r due t"
  by (rule window_cong) simp_all


lemma window_update_other:
  "caughtWindow r due (t\<lparr>doc := d\<rparr>) = caughtWindow r due t"
  "caughtWindow r due (t\<lparr>jumpAnimFrame := j\<rparr>) = caughtWindow r due t"
  "caughtWindow r due (t\<lparr>animationFrame := a\<rparr>) = caughtWindow r due t"
  "caughtWindow r due (t\<lparr>listening := l\<rparr>) = caughtWindow r due t"
  "caughtWindow r due (t\<lparr>clock := c\<rparr>) = caughtWindow r due t"
  "caughtWindow r due (updatePosition inst t) = caughtWindow r due t"
  "caughtWindow r due (updateShadow inst env hh t) = caughtWindow r due t"
  "caughtWindow r due (snd (requestAnimationFrame cb t)) = caughtWindow r due t"
  "caughtWindow r due (cancelAnimationFrame h t) = caughtWindow r due t"
  "caughtWindow r due (cancelIfSet ho t) = caughtWindow r due t"
  by (simp_all add: caughtWindow_def)

lemma window_update_state:
  "isCaught st = isCaught (state t) \<Longrightarrow> caughtWindow r due (t\<lparr>state := st\<rparr>) = caughtWindow r due t"
  by (simp add: caughtWindow_def)

lemma window_jumpAnimate:
  assumes "caughtWindow r due t"
  shows "caughtWindow r due (jumpAnimate inst env ts t)"
proof (cases "jumpLands (state t) ts")
  case False
  have "caughtWindow r due (jumpAnimate inst env ts t) = caughtWindow r due t"
    by (rule window_cong) (simp_all add: jumpAnimate_airborne[OF False])
  with assms show ?thesis by simp
next
  case True
  define st1 where "st1 = (jumpFall (state t) ts)
      \<lparr>currentX := fst (jumpMove (currentX (state t)) (currentY (state t)) (jumpTargetX (state t)) (jumpTargetY (state t))),
       currentY := snd (jumpMove (currentX (state t)) (currentY (state t)) (jumpTargetX (state t)) (jumpTargetY (state t)))\<rparr>"
  define t1 where "t1 = t\<lparr>state := st1,
      doc := (doc t)\<lparr>wrapperLeft := startX inst + currentX st1,
                      wrapperTop := startY inst + currentY st1 - z st1 * (15 / 100)\<rparr>\<rparr>"
  define t2 where "t2 = (if showShadow (opts inst) then updateShadow inst env (z st1) t1 else t1)"
  define t3 where "t3 = updatePosition inst (t2\<lparr>state := (state t2)\<lparr>z := 0, zVelocity := 0,
        currentX := jumpTargetX st1, currentY := jumpTargetY st1,
        targetX := jumpTargetX st1, targetY := jumpTargetY st1\<rparr>\<rparr>)"
  define t4 where "t4 = (if showShadow (opts inst) then
        snd (setTimeout ShadowFade 200 (t3\<lparr>doc := (doc t3)\<lparr>shadowScale := 1, shadowOpacity := 1\<rparr>\<rparr>))
      else t3)"
  define t5 where "t5 = (if screenShake (opts inst) then
        snd (setTimeout LandingEnd 200 (t4\<lparr>doc := (doc t4)\<lparr>landingClass := True\<rparr>\<rparr>))
      else t4)"
  define t6 where "t6 = t5\<lparr>state := (state t5)\<lparr>isJumping := False, lastJumpTime := 0\<rparr>,
        jumpAnimFrame := None\<rparr>"
  define t7 where "t7 = clearIfSet (returnTimeout t6) t6"
  have res: "jumpAnimate inst env ts t
      = (snd (setTimeout ReturnToCenter 450 t7))\<lparr>returnTimeout := Some (nextTimer t7)\<rparr>"
    using True
    by (simp add: jumpAnimate_def Let_def case_prod_beta t7_def t6_def t5_def t4_def t3_def t2_def
        t1_def st1_def)
  have c1: "isCaught st1 = isCaught (state t)" by (simp add: st1_def jumpFall_def Let_def)
  have w1: "caughtWindow r due t1"
    using assms c1 by (simp add: t1_def window_update_other window_update_state)
  have w2: "caughtWindow r due t2" using w1 by (simp add: t2_def window_update_other)
  have w3: "caughtWindow r due t3"
    using w2 by (simp add: t3_def window_update_other window_update_state)
  have w4: "caughtWindow r due t4"
    using w3 by (simp add: t4_def window_update_other window_setTimeout)
  have w5: "caughtWindow r due t5"
    using w4 by (simp add: t5_def window_update_other window_setTimeout)
  have w6: "caughtWindow r due t6"
    using w5 by (simp add: t6_def window_update_other window_update_state)
  have w7: "caughtWindow r due t7"
    unfolding t7_def using w6 by (intro window_clearIfSet) (simp_all add: caughtWindow_def)
  from window_schedule_return[OF w7] show ?thesis unfolding res .
qed

lemma window_runTimer:
  assumes "caughtWindow r due t" and "cb \<noteq> CaughtRestore"
  shows "caughtWindow r due (runTimer inst cb t)"
  using assms
  by (cases cb) (simp_all add: window_update_other window_returnToCenter Let_def)

lemma window_destroy:
  assumes "caughtWindow r due t"
  shows "caughtWindow r due (destroy inst t)"
proof -
  let ?t3 = "cancelIfSet (jumpAnimFrame (cancelIfSet (animationFrame (t\<lparr>listening := False\<rparr>)) (t\<lparr>listening := False\<rparr>)))
               (cancelIfSet (animationFrame (t\<lparr>listening := False\<rparr>)) (t\<lparr>listening := False\<rparr>))"
  let ?t4 = "clearIfSet (returnTimeout ?t3) ?t3"
  let ?t5 = "clearIfSet (tauntTimeout ?t4) ?t4"
  have 3: "caughtWindow r due ?t3" using assms by (simp add: window_update_other)
  have r3: "returnTimeout ?t3 \<noteq> Some r" using assms by (simp add: caughtWindow_def)
  have 4: "caughtWindow r due ?t4" using 3 r3 by (rule window_clearIfSet)
  have r4: "tauntTimeout ?t4 \<noteq> Some r" using assms by (simp add: caughtWindow_def)
  have 5: "caughtWindow r due ?t5" using 4 r4 by (rule window_clearIfSet)
  show ?thesis unfolding destroy_def Let_def window_update_other(1) by (rule 5)
qed

lemma window_step:
  assumes "caughtWindow r due t" and "e \<noteq> Timeout r"
  shows "caughtWindow r due (step inst t e)"
proof (cases e)
  case (MouseMove env mx my)
  then show ?thesis using assms window_handleMouseMove by simp
next
  case MouseLeave
  then show ?thesis using assms window_handleMouseLeave by simp
next
  case Click
  from assms have "isCaught (state t)" by (simp add: caughtWindow_def)
  then show ?thesis using Click assms by (simp add: handleClick_caught)
next
  case (AnimationFrame h env ts)
  show ?thesis
  proof (cases "map_of (frames t) h")
    case None
    then show ?thesis using AnimationFrame assms by simp
  next
    case (Some cb)
    have "caughtWindow r due (cancelAnimationFrame h t)" using assms by (simp add: window_update_other)
    then have "caughtWindow r due (runFrame inst env ts cb (cancelAnimationFrame h t))"
      by (cases cb) (simp_all add: runFrame_def window_springAnimate window_jumpAnimate)
    then show ?thesis using AnimationFrame Some by simp
  qed
next
  case (Timeout h)
  with assms have hr: "h \<noteq> r" by simp
  show ?thesis
  proof (cases "map_of (timers t) h")
    case None
    then show ?thesis using Timeout assms by simp
  next
    case (Some dc)
    obtain d cb where dc: "dc = (d, cb)" by (cases dc) auto
    from Some dc have "(h, d, cb) \<in> set (timers t)" by (simp add: map_of_SomeD)
    with assms hr have cb: "cb \<noteq> CaughtRestore" by (fastforce simp add: caughtWindow_def)
    have "caughtWindow r due (clearTimeout h t)" using assms(1) hr by (rule window_clearTimeout)
    then have "caughtWindow r due (runTimer inst cb (clearTimeout h t))" using cb by (rule window_runTimer)
    then show ?thesis using Timeout Some dc assms by simp
  qed
next
  case (Elapse dt)
  then show ?thesis using assms by (simp add: window_update_other)
next
  case Destroy
  then show ?thesis using assms window_destroy by simp
qed

lemma window_run:
  assumes "caughtWindow r due t" and "Timeout r \<notin> set evs"
  shows "caughtWindow r due (run inst t evs)"
  using assms
proof (induction evs arbitrary: t)
  case Nil
  then show ?case by simp
next
  case (Cons e evs)
  from Cons.prems have "caughtWindow r due (step inst t e)" by (intro window_step) auto
  with Cons show ?case by (simp add: run_Cons)
qed

lemma window_opens:
  assumes "timersOk s" and "\<not> isCaught (state s)"
  shows "caughtWindow (Suc (nextTimer s)) (clock s + max 0 (caughtDuration (opts inst))) (handleClick inst s)"
proof -
  note h = handleClick_host[OF assms(2), of inst]
  let ?T = "case returnTimeout s of None \<Rightarrow> timers s
            | Some h \<Rightarrow> filter (\<lambda>t. fst t \<noteq> h) (timers s)"
  have sub: "set ?T \<subseteq> set (timers s)" by (cases "returnTimeout s") auto
  have lt: "\<forall>x \<in> set ?T. fst x < nextTimer s" using assms(1) sub by (auto simp add: timersOk_def)
  have no: "\<forall>x \<in> set ?T. snd (snd x) \<noteq> CaughtRestore"
    using assms sub by (auto simp add: timersOk_def)
  have "map_of ?T (Suc (nextTimer s)) = None"
    using lt by (force simp add: map_of_eq_None_iff)
  moreover have "map_of ?T (nextTimer s) = None"
    using lt by (force simp add: map_of_eq_None_iff)
  ultimately have m: "map_of (timers (handleClick inst s)) (Suc (nextTimer s))
      = Some (clock s + max 0 (caughtDuration (opts inst)), CaughtRestore)"
    unfolding h(9) by (simp add: map_add_def)
  have tt: "tauntTimeout (handleClick inst s) \<noteq> Some (Suc (nextTimer s))"
    using assms(1) by (auto simp add: timersOk_def)
  have only: "\<forall>x \<in> set (timers (handleClick inst s)). snd (snd x) = CaughtRestore \<longrightarrow> fst x = Suc (nextTimer s)"
    unfolding h(9) using no by auto
  have fresh: "\<forall>x \<in> set (timers (handleClick inst s)). fst x < nextTimer (handleClick inst s)"
    unfolding h(9) h(10) using lt by (auto intro: less_SucI)
  from m h(1) h(7) tt only fresh show ?thesis by (simp add: caughtWindow_def)
qed


lemma restore_fires:
  assumes "caughtWindow r due t" and "due \<le> clock t"
  shows "innerHTML (doc (step inst t (Timeout r))) = originalContent inst"
    and "\<not> isCaught (state (step inst t (Timeout r)))"
  using assms by (simp_all add: caughtWindow_def)

lemma click_window_general:
  assumes "timersOk s" and "\<not> isCaught (state s)"
  shows "isCaught (state (handleClick inst s))
     \<and> calls (handleClick inst s) = calls s @ (if onCatch (opts inst) then [OnCatch] else [])
     \<and> jumpAnimFrame (handleClick inst s) = None \<and> animationFrame (handleClick inst s) = None
     \<and> (\<forall>h. jumpAnimFrame s = Some h \<or> animationFrame s = Some h
            \<longrightarrow> h \<notin> fst ` set (frames (handleClick inst s)))
     \<and> \<not> isJumping (state (handleClick inst s))
     \<and> innerHTML (doc (handleClick inst s)) = caughtText (opts inst)
     \<and> (\<forall>evs. Timeout (Suc (nextTimer s)) \<notin> set evs \<longrightarrow>
           isCaught (state (run inst (handleClick inst s) evs))
         \<and> map_of (timers (run inst (handleClick inst s) evs)) (Suc (nextTimer s))
             = Some (clock s + max 0 (caughtDuration (opts inst)), CaughtRestore)
         \<and> step inst (run inst (handleClick inst s) evs) Click = run inst (handleClick inst s) evs
         \<and> (clock s + max 0 (caughtDuration (opts inst)) \<le> clock (run inst (handleClick inst s) evs) \<longrightarrow>
               innerHTML (doc (step inst (run inst (handleClick inst s) evs) (Timeout (Suc (nextTimer s)))))
                 = originalContent inst
             \<and> \<not> isCaught (state (step inst (run inst (handleClick inst s) evs)
                                    (Timeout (Suc (nextTimer s)))))))"
proof -
  note h = handleClick_host[OF assms(2), of inst]
  have fr: "\<forall>h. jumpAnimFrame s = Some h \<or> animationFrame s = Some h
            \<longrightarrow> h \<notin> fst ` set (frames (handleClick inst s))"
    unfolding h(8) by (auto split: option.splits)
  have w: "caughtWindow (Suc (nextTimer s)) (clock s + max 0 (caughtDuration (opts inst)))
             (handleClick inst s)"
    using assms by (rule window_opens)
  have win: "\<forall>evs. Timeout (Suc (nextTimer s)) \<notin> set evs \<longrightarrow>
           isCaught (state (run inst (handleClick inst s) evs))
         \<and> map_of (timers (run inst (handleClick inst s) evs)) (Suc (nextTimer s))
             = Some (clock s + max 0 (caughtDuration (opts inst)), CaughtRestore)
         \<and> step inst (run inst (handleClick inst s) evs) Click = run inst (handleClick inst s) evs
         \<and> (clock s + max 0 (caughtDuration (opts inst)) \<le> clock (run inst (handleClick inst s) evs) \<longrightarrow>
               innerHTML (doc (step inst (run inst (handleClick inst s) evs) (Timeout (Suc (nextTimer s)))))
                 = originalContent inst
             \<and> \<not> isCaught (state (step inst (run inst (handleClick inst s) evs)
                                    (Timeout (Suc (nextTimer s))))))"
  proof (intro allI impI)
    fix evs assume "Timeout (Suc (nextTimer s)) \<notin> set evs"
    with w have wr: "caughtWindow (Suc (nextTimer s)) (clock s + max 0 (caughtDuration (opts inst)))
             (run inst (handleClick inst s) evs)" by (rule window_run)
    then have c: "isCaught (state (run inst (handleClick inst s) evs))"
      and m: "map_of (timers (run inst (handleClick inst s) evs)) (Suc (nextTimer s))
             = Some (clock s + max 0 (caughtDuration (opts inst)), CaughtRestore)"
      by (simp_all add: caughtWindow_def)
    from c have k: "step inst (run inst (handleClick inst s) evs) Click = run inst (handleClick inst s) evs"
      by (simp add: handleClick_caught)
    from c m k restore_fires[OF wr, of inst]
    show "isCaught (state (run inst (handleClick inst s) evs))
         \<and> map_of (timers (run inst (handleClick inst s) evs)) (Suc (nextTimer s))
             = Some (clock s + max 0 (caughtDuration (opts inst)), CaughtRestore)
         \<and> step inst (run inst (handleClick inst s) evs) Click = run inst (handleClick inst s) evs
         \<and> (clock s + max 0 (caughtDuration (opts inst)) \<le> clock (run inst (handleClick inst s) evs) \<longrightarrow>
               innerHTML (doc (step inst (run inst (handleClick inst s) evs) (Timeout (Suc (nextTimer s)))))
                 = originalContent inst
             \<and> \<not> isCaught (state (step inst (run inst (handleClick inst s) evs)
                                    (Timeout (Suc (nextTimer s))))))"
      by blast
  qed
  from h(1) h(4) h(5) h(6) fr h(2) h(11) win show ?thesis by blast
qed


section \<open>The timers of every reachable state are well formed\<close>

lemma grow_refl: "timersGrow s s"
  by (simp add: timersGrow_def)

lemma grow_trans:
  assumes "timersGrow a b" and "timersGrow b c"
  shows "timersGrow a c"
  unfolding timersGrow_def
proof (intro conjI ballI)
  show "nextTimer a \<le> nextTimer c" using assms by (simp add: timersGrow_def)
  show "isCaught (state c) = isCaught (state a)" using assms by (simp add: timersGrow_def)
  show "tauntTimeout c = tauntTimeout a \<or> (\<exists>h. tauntTimeout c = Some h \<and> h < nextTimer c)"
    using assms by (fastforce simp add: timersGrow_def)
next
  fix x assume "x \<in> set (timers c)"
  with assms(2) have "x \<in> set (timers b)
      \<or> (nextTimer b \<le> fst x \<and> fst x < nextTimer c \<and> snd (snd x) \<noteq> CaughtRestore)"
    by (simp add: timersGrow_def)
  then show "x \<in> set (timers a)
      \<or> (nextTimer a \<le> fst x \<and> fst x < nextTimer c \<and> snd (snd x) \<noteq> CaughtRestore)"
  proof
    assume "x \<in> set (timers b)"
    with assms(1) have "x \<in> set (timers a)
      \<or> (nextTimer a \<le> fst x \<and> fst x < nextTimer b \<and> snd (snd x) \<noteq> CaughtRestore)"
      by (simp add: timersGrow_def)
    moreover have "nextTimer b \<le> nextTimer c" using assms(2) by (simp add: timersGrow_def)
    ultimately show ?thesis by auto
  next
    assume "nextTimer b \<le> fst x \<and> fst x < nextTimer c \<and> snd (snd x) \<noteq> CaughtRestore"
    moreover have "nextTimer a \<le> nextTimer b" using assms(1) by (simp add: timersGrow_def)
    ultimately show ?thesis by auto
  qed
qed

lemma grow_same:
  assumes "timers s' = timers s" "nextTimer s' = nextTimer s" "tauntTimeout s' = tauntTimeout s"
    "isCaught (state s') = isCaught (state s)"
  shows "timersGrow s s'"
  using assms by (simp add: timersGrow_def)

lemma grow_clearTimeout: "timersGrow s (clearTimeout h s)"
  by (simp add: timersGrow_def)

lemma grow_clearIfSet: "timersGrow s (clearIfSet ho s)"
  by (cases ho) (simp_all add: timersGrow_def)

lemma grow_setTimeout: "cb \<noteq> CaughtRestore \<Longrightarrow> timersGrow s (snd (setTimeout cb d s))"
  by (auto simp add: timersGrow_def)

lemma grow_schedule:
  assumes "cb \<noteq> CaughtRestore"
  shows "timersGrow s ((snd (setTimeout cb d s))\<lparr>returnTimeout := ho\<rparr>)"
  using assms by (auto simp add: timersGrow_def)

lemma timersOk_grow:
  assumes "timersOk s" and "timersGrow s s'"
  shows "timersOk s'"
  unfolding timersOk_def
proof (intro conjI ballI allI impI)
  fix x assume "x \<in> set (timers s')"
  with assms show "fst x < nextTimer s'" by (fastforce simp add: timersOk_def timersGrow_def)
next
  fix h assume t: "tauntTimeout s' = Some h"
  from assms(2) have d: "tauntTimeout s' = tauntTimeout s \<or> (\<exists>k. tauntTimeout s' = Some k \<and> k < nextTimer s')"
    and le: "nextTimer s \<le> nextTimer s'"
    by (simp_all add: timersGrow_def)
  from d show "h < nextTimer s'"
  proof
    assume "tauntTimeout s' = tauntTimeout s"
    with t assms(1) have "h < nextTimer s" by (simp add: timersOk_def)
    with le show ?thesis by simp
  next
    assume "\<exists>k. tauntTimeout s' = Some k \<and> k < nextTimer s'"
    with t show ?thesis by simp
  qed
next
  fix x assume "\<not> isCaught (state s')" and "x \<in> set (timers s')"
  with assms show "snd (snd x) \<noteq> CaughtRestore"
    by (fastforce simp add: timersOk_def timersGrow_def)
qed

lemma grow_handleMouseLeave: "timersGrow s (handleMouseLeave inst s)"
proof -
  let ?s1 = "clearIfSet (returnTimeout s) s"
  have "handleMouseLeave inst s = (snd (setTimeout ReturnToCenter 200 ?s1))\<lparr>returnTimeout := Some (nextTimer ?s1)\<rparr>"
    by (simp add: handleMouseLeave_def Let_def case_prod_beta)
  moreover have "timersGrow ?s1 ((snd (setTimeout ReturnToCenter 200 ?s1))\<lparr>returnTimeout := Some (nextTimer ?s1)\<rparr>)"
    by (rule grow_schedule) simp
  ultimately show ?thesis using grow_trans[OF grow_clearIfSet] by simp
qed

lemma isCaught_showTaunt [simp]: "isCaught (state (showTaunt inst env s)) = isCaught (state s)"
  by (simp add: state_showTaunt)

lemma isCaught_escapeJump [simp]: "isCaught (state (escapeJump inst env mx my s)) = isCaught (state s)"
  by (rule escapeJump_effect(4))

lemma grow_showTaunt: "timersGrow s (showTaunt inst env s)"
  by (auto simp add: timersGrow_def showTaunt_host split: option.splits)

lemma grow_escapeJump: "timersGrow s (escapeJump inst env mx my s)"
  by (auto simp add: timersGrow_def escapeJump_host split: option.splits)

lemma grow_randomCalls: "timersGrow s (s\<lparr>randomCalls := n\<rparr>)"
  by (simp add: timersGrow_def)

lemma grow_escapeFrom: "timersGrow s (escapeFrom inst env mx my s)"
proof -
  let ?s6 = "escapeJump inst env mx my s"
  let ?s7 = "?s6\<lparr>randomCalls := Suc (randomCalls ?s6)\<rparr>"
  have 7: "timersGrow s ?s7" using grow_trans[OF grow_escapeJump grow_randomCalls] .
  have 8: "timersGrow s (showTaunt inst env ?s7)" using grow_trans[OF 7 grow_showTaunt] .
  from 7 8 grow_refl show ?thesis by (simp add: escapeFrom_def Let_def)
qed

lemma grow_handleMouseMove: "timersGrow s (handleMouseMove inst env mx my s)"
proof -
  let ?s1 = "escapeFrom inst env mx my s"
  let ?s2 = "clearIfSet (returnTimeout ?s1) ?s1"
  have 2: "timersGrow s ?s2" using grow_trans[OF grow_escapeFrom grow_clearIfSet] .
  have "timersGrow ?s2 ((snd (setTimeout ReturnToCenter 400 ?s2))\<lparr>returnTimeout := Some (nextTimer ?s2)\<rparr>)"
    by (rule grow_schedule) simp
  from grow_trans[OF 2 this] 2 show ?thesis
    by (simp add: handleMouseMove_def Let_def case_prod_beta)
qed

lemma grow_springAnimate: "timersGrow s (springAnimate inst s)"
  by (rule grow_same) simp_all

lemma grow_returnToCenter: "timersGrow s (returnToCenter inst s)"
  by (rule grow_same) simp_all

lemma grow_update_other:
  "timersGrow s (s\<lparr>doc := d\<rparr>)"
  "timersGrow s (s\<lparr>listening := l\<rparr>)"
  "timersGrow s (s\<lparr>clock := c\<rparr>)"
  "timersGrow s (cancelAnimationFrame h s)"
  "timersGrow s (cancelIfSet ho s)"
  by (simp_all add: timersGrow_def)


lemma grow_update_state:
  "isCaught st = isCaught (state s) \<Longrightarrow> timersGrow s (s\<lparr>state := st\<rparr>)"
  by (simp add: timersGrow_def)

lemma grow_jumpAnimate: "timersGrow s (jumpAnimate inst env ts s)"
proof (cases "jumpLands (state s) ts")
  case False
  show ?thesis by (rule grow_same) (simp_all add: jumpAnimate_airborne[OF False])
next
  case True
  define st1 where "st1 = (jumpFall (state s) ts)
      \<lparr>currentX := fst (jumpMove (currentX (state s)) (currentY (state s)) (jumpTargetX (state s)) (jumpTargetY (state s))),
       currentY := snd (jumpMove (currentX (state s)) (currentY (state s)) (jumpTargetX (state s)) (jumpTargetY (state s)))\<rparr>"
  define t1 where "t1 = s\<lparr>state := st1,
      doc := (doc s)\<lparr>wrapperLeft := startX inst + currentX st1,
                      wrapperTop := startY inst + currentY st1 - z st1 * (15 / 100)\<rparr>\<rparr>"
  define t2 where "t2 = (if showShadow (opts inst) then updateShadow inst env (z st1) t1 else t1)"
  define t3 where "t3 = updatePosition inst (t2\<lparr>state := (state t2)\<lparr>z := 0, zVelocity := 0,
        currentX := jumpTargetX st1, currentY := jumpTargetY st1,
        targetX := jumpTargetX st1, targetY := jumpTargetY st1\<rparr>\<rparr>)"
  define t4 where "t4 = (if showShadow (opts inst) then
        snd (setTimeout ShadowFade 200 (t3\<lparr>doc := (doc t3)\<lparr>shadowScale := 1, shadowOpacity := 1\<rparr>\<rparr>))
      else t3)"
  define t5 where "t5 = (if screenShake (opts inst) then
        snd (setTimeout LandingEnd 200 (t4\<lparr>doc := (doc t4)\<lparr>landingClass := True\<rparr>\<rparr>))
      else t4)"
  define t6 where "t6 = t5\<lparr>state := (state t5)\<lparr>isJumping := False, lastJumpTime := 0\<rparr>,
        jumpAnimFrame := None\<rparr>"
  define t7 where "t7 = clearIfSet (returnTimeout t6) t6"
  have res: "jumpAnimate inst env ts s
      = (snd (setTimeout ReturnToCenter 450 t7))\<lparr>returnTimeout := Some (nextTimer t7)\<rparr>"
    using True
    by (simp add: jumpAnimate_def Let_def case_prod_beta t7_def t6_def t5_def t4_def t3_def t2_def
        t1_def st1_def)
  have c1: "isCaught st1 = isCaught (state s)" by (simp add: st1_def jumpFall_def Let_def)
  have g1: "timersGrow s t1" by (rule grow_same) (simp_all add: t1_def c1)
  have g2: "timersGrow t1 t2" by (rule grow_same) (simp_all add: t2_def)
  have g3: "timersGrow t2 t3" by (rule grow_same) (simp_all add: t3_def)
  have g4: "timersGrow t3 t4"
  proof (cases "showShadow (opts inst)")
    case True
    have "timersGrow t3 (t3\<lparr>doc := (doc t3)\<lparr>shadowScale := 1, shadowOpacity := 1\<rparr>\<rparr>)"
      by (rule grow_update_other)
    moreover have "timersGrow (t3\<lparr>doc := (doc t3)\<lparr>shadowScale := 1, shadowOpacity := 1\<rparr>\<rparr>) t4"
      using True by (simp add: t4_def grow_setTimeout)
    ultimately show ?thesis by (rule grow_trans)
  next
    case False
    then show ?thesis by (simp add: t4_def grow_refl)
  qed
  have g5: "timersGrow t4 t5"
  proof (cases "screenShake (opts inst)")
    case True
    have "timersGrow t4 (t4\<lparr>doc := (doc t4)\<lparr>landingClass := True\<rparr>\<rparr>)"
      by (rule grow_update_other)
    moreover have "timersGrow (t4\<lparr>doc := (doc t4)\<lparr>landingClass := True\<rparr>\<rparr>) t5"
      using True by (simp add: t5_def grow_setTimeout)
    ultimately show ?thesis by (rule grow_trans)
  next
    case False
    then show ?thesis by (simp add: t5_def grow_refl)
  qed
  have g6: "timersGrow t5 t6" by (rule grow_same) (simp_all add: t6_def)
  have g7: "timersGrow t6 t7" unfolding t7_def by (rule grow_clearIfSet)
  have g8: "timersGrow t7 (jumpAnimate inst env ts s)"
    unfolding res by (rule grow_schedule) simp
  from g1 g2 g3 g4 g5 g6 g7 g8 show ?thesis by (blast intro: grow_trans)
qed

lemma grow_runTimer:
  assumes "cb \<noteq> CaughtRestore"
  shows "timersGrow s (runTimer inst cb s)"
  using assms by (cases cb) (auto intro!: grow_same simp add: Let_def)

lemma grow_destroy: "timersGrow s (destroy inst s)"
  by (auto simp add: timersGrow_def destroy_host split: option.splits)

lemma grow_runFrame: "timersGrow s (runFrame inst env ts cb s)"
  by (cases cb) (simp_all add: runFrame_def grow_springAnimate grow_jumpAnimate)

text \<open>Every step other than an effective click or the end of a caught window.\<close>

lemma grow_step:
  assumes "e = Click \<longrightarrow> isCaught (state s) \<or> \<not> listening s"
    and "\<forall>h d. e = Timeout h \<longrightarrow> map_of (timers s) h \<noteq> Some (d, CaughtRestore)"
  shows "timersGrow s (step inst s e)"
proof (cases e)
  case (MouseMove env mx my)
  then show ?thesis by (simp add: grow_handleMouseMove grow_refl)
next
  case MouseLeave
  then show ?thesis by (simp add: grow_handleMouseLeave grow_refl)
next
  case Click
  with assms(1) show ?thesis by (auto simp add: handleClick_caught grow_refl)
next
  case (AnimationFrame h env ts)
  show ?thesis
  proof (cases "map_of (frames s) h")
    case None
    then show ?thesis using AnimationFrame by (simp add: grow_refl)
  next
    case (Some cb)
    have "timersGrow s (cancelAnimationFrame h s)" by (rule grow_update_other)
    from grow_trans[OF this grow_runFrame] show ?thesis using AnimationFrame Some by simp
  qed
next
  case (Timeout h)
  show ?thesis
  proof (cases "map_of (timers s) h")
    case None
    then show ?thesis using Timeout by (simp add: grow_refl)
  next
    case (Some dc)
    obtain d cb where dc: "dc = (d, cb)" by (cases dc) auto
    with Some Timeout assms(2) have "cb \<noteq> CaughtRestore" by auto
    from grow_trans[OF grow_clearTimeout grow_runTimer[OF this]]
    show ?thesis using Timeout Some dc by (simp add: grow_refl)
  qed
next
  case (Elapse dt)
  then show ?thesis by (simp add: grow_update_other)
next
  case Destroy
  then show ?thesis by (simp add: grow_destroy)
qed


lemma restore_only_in_window:
  assumes "caughtWindow r due s" and "map_of (timers s) h = Some (d, CaughtRestore)"
  shows "h = r"
proof -
  from assms(2) have "(h, d, CaughtRestore) \<in> set (timers s)" by (rule map_of_SomeD)
  with assms(1) show ?thesis by (fastforce simp add: caughtWindow_def)
qed

lemma reachInv_step:
  assumes "reachInv s"
  shows "reachInv (step inst s e)"
proof (cases "isCaught (state s)")
  case True
  with assms obtain r due where w: "caughtWindow r due s" by (auto simp add: reachInv_def)
  from assms have ok: "timersOk s" by (simp add: reachInv_def)
  show ?thesis
  proof (cases "e = Timeout r")
    case False
    then have w': "caughtWindow r due (step inst s e)" using w by (intro window_step)
    have "\<forall>h d. e = Timeout h \<longrightarrow> map_of (timers s) h \<noteq> Some (d, CaughtRestore)"
      using False restore_only_in_window[OF w] by blast
    then have "timersGrow s (step inst s e)" using True by (intro grow_step) simp_all
    with ok have "timersOk (step inst s e)" by (rule timersOk_grow)
    with w' show ?thesis by (auto simp add: reachInv_def)
  next
    case e: True
    from w have m: "map_of (timers s) r = Some (due, CaughtRestore)" by (simp add: caughtWindow_def)
    show ?thesis
    proof (cases "due \<le> clock s")
      case False
      then show ?thesis using e m assms by simp
    next
      case due: True
      let ?s' = "runTimer inst CaughtRestore (clearTimeout r s)"
      have s': "step inst s e = ?s'" using e m due by simp
      have nc: "\<not> isCaught (state ?s')" by simp
      have t: "timers ?s' = filter (\<lambda>t. fst t \<noteq> r) (timers s)" by simp
      have "\<forall>x \<in> set (timers ?s'). snd (snd x) \<noteq> CaughtRestore"
        unfolding t using w by (auto simp add: caughtWindow_def)
      moreover have "\<forall>x \<in> set (timers ?s'). fst x < nextTimer ?s'"
        unfolding t using ok by (auto simp add: timersOk_def)
      moreover have "\<forall>h. tauntTimeout ?s' = Some h \<longrightarrow> h < nextTimer ?s'"
        using ok by (auto simp add: timersOk_def)
      ultimately have "timersOk ?s'" by (simp add: timersOk_def)
      with nc show ?thesis unfolding s' by (simp add: reachInv_def)
    qed
  qed
next
  case False
  from assms have ok: "timersOk s" by (simp add: reachInv_def)
  show ?thesis
  proof (cases "e = Click \<and> listening s")
    case True
    then have s': "step inst s e = handleClick inst s" by simp
    from window_opens[OF ok False, of inst]
    have w: "caughtWindow (Suc (nextTimer s)) (clock s + max 0 (caughtDuration (opts inst)))
               (handleClick inst s)" .
    note h = handleClick_host[OF False, of inst]
    have "\<forall>x \<in> set (timers (handleClick inst s)). fst x < nextTimer (handleClick inst s)"
      using w by (simp add: caughtWindow_def)
    moreover have "\<forall>k. tauntTimeout (handleClick inst s) = Some k \<longrightarrow> k < nextTimer (handleClick inst s)"
      unfolding h(10) using ok by (auto simp add: timersOk_def intro: less_SucI)
    ultimately have "timersOk (handleClick inst s)" using h(1) by (simp add: timersOk_def)
    with w show ?thesis unfolding s' by (auto simp add: reachInv_def)
  next
    case nclick: False
    have "\<forall>h d. e = Timeout h \<longrightarrow> map_of (timers s) h \<noteq> Some (d, CaughtRestore)"
    proof (intro allI impI notI)
      fix h d assume "map_of (timers s) h = Some (d, CaughtRestore)"
      then have "(h, d, CaughtRestore) \<in> set (timers s)" by (rule map_of_SomeD)
      with ok False show False by (fastforce simp add: timersOk_def)
    qed
    then have g: "timersGrow s (step inst s e)" using nclick by (intro grow_step) auto
    with ok have "timersOk (step inst s e)" by (rule timersOk_grow)
    moreover from g False have "\<not> isCaught (state (step inst s e))" by (simp add: timersGrow_def)
    ultimately show ?thesis by (simp add: reachInv_def)
  qed
qed

lemma reachInv_run:
  assumes "reachInv s"
  shows "reachInv (run inst s evs)"
  using assms
proof (induction evs arbitrary: s)
  case Nil
  then show ?case by simp
next
  case (Cons e evs)
  from Cons.prems have "reachInv (step inst s e)" by (rule reachInv_step)
  then show ?case unfolding run_Cons by (rule Cons.IH)
qed

lemma reachInv_makeEvasive: "reachInv (makeEvasive os rnd content l t w h)"
  by (simp add: reachInv_def timersOk_def makeEvasive_def Let_def shuffleTauntQueue_def
      case_prod_beta initialState_def)


section \<open>Every pending frame of a reachable state is one the controller holds a handle to\<close>

lemma tracked_cong:
  assumes "frames s' = frames s" "animationFrame s' = animationFrame s" "jumpAnimFrame s' = jumpAnimFrame s"
  shows "framesTracked s' = framesTracked s"
  using assms by (simp add: framesTracked_def)

lemma tracked_escapeJump:
  assumes "framesTracked s"
  shows "framesTracked (escapeJump inst env mx my s)"
  using assms
  by (auto simp add: framesTracked_def escapeJump_host escapeJump_effect split: option.splits)

lemma tracked_escapeFrom:
  assumes "framesTracked s"
  shows "framesTracked (escapeFrom inst env mx my s)"
proof -
  let ?s6 = "escapeJump inst env mx my s"
  let ?s7 = "?s6\<lparr>randomCalls := Suc (randomCalls ?s6)\<rparr>"
  have 7: "framesTracked ?s7" using tracked_escapeJump[OF assms, of inst env mx my]
    by (simp add: framesTracked_def)
  have "framesTracked (showTaunt inst env ?s7) = framesTracked ?s7"
    by (rule tracked_cong) simp_all
  with 7 assms show ?thesis by (simp add: escapeFrom_def Let_def)
qed

lemma tracked_handleMouseMove:
  assumes "framesTracked s"
  shows "framesTracked (handleMouseMove inst env mx my s)"
proof -
  have "framesTracked (handleMouseMove inst env mx my s) = framesTracked (escapeFrom inst env mx my s)"
    by (rule tracked_cong) (simp_all add: handleMouseMove_def Let_def case_prod_beta)
  with tracked_escapeFrom[OF assms] show ?thesis by simp
qed

lemma tracked_handleMouseLeave:
  "framesTracked (handleMouseLeave inst s) = framesTracked s"
  by (rule tracked_cong) simp_all

lemma frames_handleClick_tracked:
  assumes "framesTracked s" and "\<not> isCaught (state s)"
  shows "frames (handleClick inst s) = []"
proof -
  have "f \<notin> set (frames (handleClick inst s))" for f
  proof
    assume "f \<in> set (frames (handleClick inst s))"
    then have m: "f \<in> set (frames s)"
      and a: "animationFrame s \<noteq> Some (fst f)" and j: "jumpAnimFrame s \<noteq> Some (fst f)"
      unfolding handleClick_host(8)[OF assms(2)]
      by (auto split: option.splits)
    from assms(1) m have "animationFrame s = Some (fst f) \<or> jumpAnimFrame s = Some (fst f)"
      by (auto simp add: framesTracked_def)
    with a j show False by simp
  qed
  then show ?thesis by (cases "frames (handleClick inst s)") auto
qed

lemma tracked_handleClick:
  assumes "framesTracked s"
  shows "framesTracked (handleClick inst s)"
proof (cases "isCaught (state s)")
  case True
  then show ?thesis using assms by (simp add: handleClick_caught)
next
  case False
  from frames_handleClick_tracked[OF assms False] show ?thesis by (simp add: framesTracked_def)
qed

lemma springAnimate_frames:
  "frames (springAnimate inst s) = frames s
     \<and> (animationFrame (springAnimate inst s) = animationFrame s
        \<or> animationFrame (springAnimate inst s) = None)
   \<or> frames (springAnimate inst s) = frames s @ [(nextFrame s, SpringAnimate)]
     \<and> animationFrame (springAnimate inst s) = Some (nextFrame s)"
  by (simp add: springAnimate_def Let_def case_prod_beta)

lemma tracked_fire_spring:
  assumes "framesTracked s" and "map_of (frames s) h = Some SpringAnimate"
  shows "framesTracked (springAnimate inst (cancelAnimationFrame h s))"
proof -
  let ?t = "cancelAnimationFrame h s"
  from assms(2) have "(h, SpringAnimate) \<in> set (frames s)" by (rule map_of_SomeD)
  with assms(1) have a: "animationFrame s = Some h" by (fastforce simp add: framesTracked_def)
  have nospring: "\<forall>f \<in> set (frames ?t). snd f = JumpAnimate \<and> jumpAnimFrame s = Some (fst f)"
    using assms(1) a by (fastforce simp add: framesTracked_def)
  have j: "jumpAnimFrame (springAnimate inst ?t) = jumpAnimFrame s" by simp
  from springAnimate_frames[of inst ?t] show ?thesis
    using nospring unfolding framesTracked_def j by auto
qed

lemma jumpAnimate_frames:
  "frames (jumpAnimate inst env ts s) = frames s \<and> jumpAnimFrame (jumpAnimate inst env ts s) = None
   \<or> frames (jumpAnimate inst env ts s) = frames s @ [(nextFrame s, JumpAnimate)]
     \<and> jumpAnimFrame (jumpAnimate inst env ts s) = Some (nextFrame s)"
  by (simp add: jumpAnimate_def Let_def case_prod_beta)

lemma tracked_fire_jump:
  assumes "framesTracked s" and "map_of (frames s) h = Some JumpAnimate"
  shows "framesTracked (jumpAnimate inst env ts (cancelAnimationFrame h s))"
proof -
  let ?t = "cancelAnimationFrame h s"
  from assms(2) have "(h, JumpAnimate) \<in> set (frames s)" by (rule map_of_SomeD)
  with assms(1) have a: "jumpAnimFrame s = Some h" by (fastforce simp add: framesTracked_def)
  have nojump: "\<forall>f \<in> set (frames ?t). snd f = SpringAnimate \<and> animationFrame s = Some (fst f)"
    using assms(1) a by (fastforce simp add: framesTracked_def)
  have j: "animationFrame (jumpAnimate inst env ts ?t) = animationFrame s" by simp
  from jumpAnimate_frames[of inst env ts ?t] show ?thesis
    using nojump unfolding framesTracked_def j by auto
qed

lemma tracked_returnToCenter:
  assumes "framesTracked s"
  shows "framesTracked (returnToCenter inst s)"
  using assms
  by (cases "animationFrame s") (auto simp add: framesTracked_def returnToCenter_host)

lemma tracked_runTimer:
  assumes "framesTracked s"
  shows "framesTracked (runTimer inst cb s)"
proof (cases cb)
  case ReturnToCenter
  then show ?thesis using tracked_returnToCenter[OF assms] by simp
next
  case CaughtReturn
  then show ?thesis using tracked_returnToCenter[OF assms, of inst]
    by (simp add: Let_def framesTracked_def)
qed (use assms in \<open>simp_all add: framesTracked_def\<close>)

lemma tracked_destroy:
  assumes "framesTracked s"
  shows "framesTracked (destroy inst s)"
  using assms by (auto simp add: framesTracked_def destroy_host split: option.splits)

lemma tracked_step:
  assumes "framesTracked s"
  shows "framesTracked (step inst s e)"
proof (cases e)
  case (MouseMove env mx my)
  then show ?thesis using assms tracked_handleMouseMove by simp
next
  case MouseLeave
  then show ?thesis using assms by (simp add: tracked_handleMouseLeave)
next
  case Click
  then show ?thesis using assms tracked_handleClick by simp
next
  case (AnimationFrame h env ts)
  show ?thesis
  proof (cases "map_of (frames s) h")
    case None
    then show ?thesis using AnimationFrame assms by simp
  next
    case (Some cb)
    then show ?thesis using AnimationFrame assms
      by (cases cb) (simp_all add: runFrame_def tracked_fire_spring tracked_fire_jump)
  qed
next
  case (Timeout h)
  have "framesTracked (clearTimeout h s)" using assms by (simp add: framesTracked_def)
  then show ?thesis using Timeout assms tracked_runTimer
    by (auto split: option.splits)
next
  case (Elapse dt)
  then show ?thesis using assms by (simp add: framesTracked_def)
next
  case Destroy
  then show ?thesis using assms tracked_destroy by simp
qed

lemma tracked_run:
  assumes "framesTracked s"
  shows "framesTracked (run inst s evs)"
  using assms
proof (induction evs arbitrary: s)
  case Nil
  then show ?case by simp
next
  case (Cons e evs)
  from Cons.prems have "framesTracked (step inst s e)" by (rule tracked_step)
  then show ?case unfolding run_Cons by (rule Cons.IH)
qed

lemma tracked_makeEvasive: "framesTracked (makeEvasive os rnd content l t w h)"
  by (simp add: framesTracked_def makeEvasive_def Let_def shuffleTauntQueue_def case_prod_beta)


text \<open>
  C5: in every state the controller reaches from attach, a click while not caught sets
  \<open>isCaught\<close>, invokes \<open>onCatch\<close> (if supplied), cancels the pending jump and spring
  frames and clears their handles, so that no animation frame at all is left pending, and
  replaces the content with \<open>caughtText\<close>. It sets a
  timer, due \<open>caughtDuration\<close> milliseconds after the click; whatever events follow
  (pointer moves, clicks, frames, other timers, the passing of time, even a detach), until
  that timer fires it stays pending and the element stays caught, a further click changes
  nothing at all, and when the timer fires the original content is restored and \<open>isCaught\<close>
  is cleared.
\<close>

theorem click_opens_caught_window:
  fixes os :: Opts and rnd :: "nat \<Rightarrow> real" and content :: string and l t w h :: real
    and before :: "event list"
  defines "inst \<equiv> makeInstance os rnd content l t w h"
  defines "s \<equiv> run inst (makeEvasive os rnd content l t w h) before"
  assumes notCaught: "\<not> isCaught (state s)"
  shows "isCaught (state (handleClick inst s))
     \<and> calls (handleClick inst s) = calls s @ (if onCatch (opts inst) then [OnCatch] else [])
     \<and> jumpAnimFrame (handleClick inst s) = None \<and> animationFrame (handleClick inst s) = None
     \<and> (\<forall>h. jumpAnimFrame s = Some h \<or> animationFrame s = Some h
            \<longrightarrow> h \<notin> fst ` set (frames (handleClick inst s)))
     \<and> frames (handleClick inst s) = []
     \<and> \<not> isJumping (state (handleClick inst s))
     \<and> innerHTML (doc (handleClick inst s)) = caughtText (opts inst)
     \<and> (\<forall>evs. Timeout (Suc (nextTimer s)) \<notin> set evs \<longrightarrow>
           isCaught (state (run inst (handleClick inst s) evs))
         \<and> map_of (timers (run inst (handleClick inst s) evs)) (Suc (nextTimer s))
             = Some (clock s + max 0 (caughtDuration (opts inst)), CaughtRestore)
         \<and> step inst (run inst (handleClick inst s) evs) Click = run inst (handleClick inst s) evs
         \<and> (clock s + max 0 (caughtDuration (opts inst)) \<le> clock (run inst (handleClick inst s) evs) \<longrightarrow>
               innerHTML (doc (step inst (run inst (handleClick inst s) evs) (Timeout (Suc (nextTimer s)))))
                 = originalContent inst
             \<and> \<not> isCaught (state (step inst (run inst (handleClick inst s) evs)
                                    (Timeout (Suc (nextTimer s)))))))"
proof -
  have "reachInv s" unfolding s_def using reachInv_makeEvasive by (rule reachInv_run)
  then have "timersOk s" by (simp add: reachInv_def)
  note g = click_window_general[OF this notCaught]
  have "framesTracked s" unfolding s_def using tracked_makeEvasive by (rule tracked_run)
  then have f: "frames (handleClick inst s) = []" using notCaught
    by (rule frames_handleClick_tracked)
  from g f show ?thesis by blast
qed

theorem click_opens_caught_window_witness:
  "\<not> isCaught (state afterLeave)
   \<and> Timeout (Suc (nextTimer afterLeave)) \<notin> set [MouseLeave, Click, Elapse 1100]
   \<and> clock afterLeave + max 0 (caughtDuration (opts (exampleInstance defaultOpts)))
       \<le> clock (run (exampleInstance defaultOpts)
                  (handleClick (exampleInstance defaultOpts) afterLeave)
                  [MouseLeave, Click, Elapse 1100])
   \<and> innerHTML (doc (handleClick (exampleInstance defaultOpts) afterLeave)) = ''Wait... HOW?!''
   \<and> isCaught (state (run (exampleInstance defaultOpts)
                  (handleClick (exampleInstance defaultOpts) afterLeave)
                  [MouseLeave, Click, Elapse 1100]))
   \<and> innerHTML (doc (step (exampleInstance defaultOpts)
         (run (exampleInstance defaultOpts)
            (handleClick (exampleInstance defaultOpts) afterLeave)
            [MouseLeave, Click, Elapse 1100])
         (Timeout (Suc (nextTimer afterLeave))))) = ''Click me''
   \<and> \<not> isCaught (state (step (exampleInstance defaultOpts)
         (run (exampleInstance defaultOpts)
            (handleClick (exampleInstance defaultOpts) afterLeave)
            [MouseLeave, Click, Elapse 1100])
         (Timeout (Suc (nextTimer afterLeave)))))"
proof -
  let ?I = "exampleInstance defaultOpts"
  let ?evs = "[MouseLeave, Click, Elapse 1100]"
  have a: "afterLeave = handleMouseLeave ?I (exampleCtrl defaultOpts)"
    by (simp add: afterLeave_def run_Cons)
  have 2: "\<not> isCaught (state afterLeave)" by (simp add: a initialState_def)
  have 3: "Timeout (Suc (nextTimer afterLeave)) \<notin> set ?evs" by simp
  have c: "isCaught (state (handleClick ?I afterLeave))" using handleClick_host(1)[OF 2] .
  have 4: "clock afterLeave + max 0 (caughtDuration (opts ?I)) \<le> clock (run ?I (handleClick ?I afterLeave) ?evs)"
    using c by (simp add: run_Cons defaultOpts_def handleClick_caught a)
  note t = click_opens_caught_window[where os = defaultOpts and rnd = exampleRandom
      and content = "''Click me''" and l = 590 and t = 340 and w = 100 and h = 40
      and before = "[MouseLeave]", folded exampleInstance_def exampleCtrl_def, folded afterLeave_def,
      OF 2]
  from t have 5: "innerHTML (doc (handleClick ?I afterLeave)) = ''Wait... HOW?!''"
    by (simp add: defaultOpts_def)
  from t 3 have 6: "isCaught (state (run ?I (handleClick ?I afterLeave) ?evs))" by blast
  from t 3 4 have 7: "innerHTML (doc (step ?I (run ?I (handleClick ?I afterLeave) ?evs)
         (Timeout (Suc (nextTimer afterLeave))))) = originalContent ?I
     \<and> \<not> isCaught (state (step ?I (run ?I (handleClick ?I afterLeave) ?evs)
                            (Timeout (Suc (nextTimer afterLeave)))))"
    by blast
  from 2 3 4 5 6 7 show ?thesis by simp
qed

end
